theory Spec2Isabelle
  imports Complex_Main "HOL-Library.Sublist" "HOL-Library.AList" "HOL-Library.Word"
begin

unbundle bit_operations_syntax

section \<open>The cache layer of pitwall-cli (source/cache.py, source/api.py)\<close>

text \<open>
  The theory embeds the class \<^verbatim>\<open>F1Cache\<close> of \<^verbatim>\<open>source/cache.py\<close> and the function
  \<^verbatim>\<open>fetch_json\<close> of \<^verbatim>\<open>source/api.py\<close>. Python's \<^verbatim>\<open>str\<close> is \<open>string\<close>, the
  cache directory is an association list from file stems to files, exceptions are
  values of a sum type, and \<^verbatim>\<open>None\<close> is the JSON value \<open>JNull\<close>.
\<close>

subsection \<open>Library functions on strings\<close>

text \<open>
  \<^verbatim>\<open>s.split(sep)\<close> for a one-character separator: the pieces between the separators,
  empty pieces kept, so that the result is never empty
  (\<^verbatim>\<open>"".split("/") == [""]\<close>, \<^verbatim>\<open>"a//b".split("/") == ["a", "", "b"]\<close>). A character
  that is not the separator joins the first piece of the rest; the rest always has
  one (\<open>str_split_not_Nil\<close>), so the branch for \<open>[]\<close> is never taken.
\<close>

fun str_split :: "char \<Rightarrow> string \<Rightarrow> string list" where
  "str_split sep [] = [[]]"
| "str_split sep (c # cs) =
     (if c = sep then [] # str_split sep cs
      else (case str_split sep cs of
              p # ps \<Rightarrow> (c # p) # ps
            | [] \<Rightarrow> [[c]]))"

text \<open>
  \<^verbatim>\<open>s.replace(old, "")\<close>: the occurrences of \<open>old\<close> are found from left to right, without
  overlap, and dropped; the scan continues after each occurrence and never looks at
  its own output again. With an empty \<open>old\<close> and an empty replacement the string is
  unchanged.
\<close>

function str_replace_empty :: "string \<Rightarrow> string \<Rightarrow> string" where
  "str_replace_empty old [] = []"
| "str_replace_empty old (c # cs) =
     (if old \<noteq> [] \<and> prefix old (c # cs)
      then str_replace_empty old (drop (length old) (c # cs))
      else c # str_replace_empty old cs)"
  by pat_completeness auto
termination
  by (relation "measure (\<lambda>(old, s). length s)") auto

subsection \<open>The library the cache calls\<close>

text \<open>
  A naive \<^verbatim>\<open>datetime\<close> is its number of microseconds on the proleptic Gregorian time
  line; an aware one is its instant in UTC. Python refuses to order a naive and an
  aware value. The time line is unbounded here: \<^verbatim>\<open>datetime\<close> ends with the year 9999,
  and the \<^verbatim>\<open>OverflowError\<close> of an addition that leaves that range is outside the model.
\<close>

datatype datetime = Naive int | Aware int

datatype json =
    JNull
  | JBool bool
  | JNum rat
  | JStr string
  | JArr "json list"
  | JObj "(string \<times> json) list"

text \<open>
  The functions of the standard library that the cache calls and whose code is not
  part of the repository are parameters of the model:
  \<^item> \<open>md5\<close>: \<^verbatim>\<open>hashlib.md5(b).digest()\<close>, read as a 128-bit number;
  \<^item> \<open>fromisoformat\<close>: \<^verbatim>\<open>datetime.fromisoformat\<close> on a \<^verbatim>\<open>str\<close>, \<open>None\<close> where it raises
    \<^verbatim>\<open>ValueError\<close>;
  \<^item> \<open>isoformat\<close>: \<^verbatim>\<open>isoformat()\<close> of a naive \<^verbatim>\<open>datetime\<close>;
  \<^item> \<open>dump_size\<close>: the number of bytes \<^verbatim>\<open>json.dump(v, f, indent=2)\<close> writes;
  \<^item> \<open>unlink\<close>: whether \<^verbatim>\<open>Path.unlink\<close> removes the file of that name (\<open>True\<close>) or
    raises \<^verbatim>\<open>OSError\<close> (\<open>False\<close>: the name is a directory, or the cache directory
    does not let the file go).
\<close>

record lib =
  md5 :: "string \<Rightarrow> 128 word"
  fromisoformat :: "string \<Rightarrow> datetime option"
  isoformat :: "int \<Rightarrow> string"
  dump_size :: "json \<Rightarrow> nat"
  unlink :: "string \<Rightarrow> bool"

definition hex_digit :: "nat \<Rightarrow> char" where
  "hex_digit n = ''0123456789abcdef'' ! (n mod 16)"

text \<open>\<^verbatim>\<open>hexdigest()\<close>: the 32 hexadecimal digits of the digest, the high nibble first.\<close>

definition hexdigest :: "128 word \<Rightarrow> string" where
  "hexdigest w = map (\<lambda>i. hex_digit (unat (drop_bit (4 * (31 - i)) w AND 15))) [0..<32]"

subsection \<open>Key and category derivation\<close>

text \<open>
  \<^verbatim>\<open>
  def _get_cache_key(self, url):
      clean_url = url.replace("https://", "").replace("http://", "")
      return hashlib.md5(clean_url.encode()).hexdigest()
  \<close>
\<close>

definition clean_url :: "string \<Rightarrow> string" where
  "clean_url url = str_replace_empty ''http://'' (str_replace_empty ''https://'' url)"

definition get_cache_key :: "lib \<Rightarrow> string \<Rightarrow> string" where
  "get_cache_key L url = hexdigest (md5 L (clean_url url))"

text \<open>
  \<^verbatim>\<open>
  def _get_endpoint_type(self, url):
      parts = url.split("/")
      if len(parts) >= 5:
          endpoint = parts[4].split("?")[0]
          return endpoint
      return "default"
  \<close>
  \<open>parts ! 4\<close> is read only under the guard, and \<open>hd\<close> only of a split, which is
  never empty.
\<close>

definition get_endpoint_type :: "string \<Rightarrow> string" where
  "get_endpoint_type url =
     (let parts = str_split CHR ''/'' url
      in if length parts \<ge> 5 then hd (str_split CHR ''?'' (parts ! 4)) else ''default'')"

subsection \<open>Exceptions, files and the cache directory\<close>

datatype exn =
    OSError
  | UnicodeDecodeError
  | JSONDecodeError
  | KeyError
  | TypeError
  | ValueError
  | AttributeError

text \<open>
  What \<^verbatim>\<open>open(cache_file, "r")\<close> followed by \<^verbatim>\<open>json.load(f)\<close> finds in a file: a file
  that cannot be opened, bytes that are not text, text that is not JSON, or a JSON
  value. A \<open>JObj\<close> is the \<^verbatim>\<open>dict\<close> that \<^verbatim>\<open>json.load\<close> returns; \<open>map_of\<close> reads it.
\<close>

datatype content = Unreadable | Undecodable | Malformed | Parsed json

record disk_file =
  body :: content
  st_size :: nat

text \<open>
  The \<^verbatim>\<open>*.json\<close> files of \<^verbatim>\<open>cache_dir\<close>, in the order \<^verbatim>\<open>glob\<close> yields them, each under
  its name without the extension. The names of a directory are distinct.
  A successful \<^verbatim>\<open>unlink\<close> is \<open>AList.delete\<close>, writing a file is \<open>AList.update\<close>.
\<close>

type_synonym cache_dir = "(string \<times> disk_file) list"

definition json_load :: "disk_file \<Rightarrow> exn + json" where
  "json_load f =
     (case body f of
        Unreadable \<Rightarrow> Inl OSError
      | Undecodable \<Rightarrow> Inl UnicodeDecodeError
      | Malformed \<Rightarrow> Inl JSONDecodeError
      | Parsed v \<Rightarrow> Inr v)"

text \<open>\<^verbatim>\<open>v[k]\<close> for a string \<open>k\<close>: only a \<^verbatim>\<open>dict\<close> takes a string subscript.\<close>

fun subscript :: "json \<Rightarrow> string \<Rightarrow> exn + json" where
  "subscript (JObj kvs) k = (case map_of kvs k of None \<Rightarrow> Inl KeyError | Some v \<Rightarrow> Inr v)"
| "subscript _ k = Inl TypeError"

text \<open>\<^verbatim>\<open>v.get(k, d)\<close>: only a \<^verbatim>\<open>dict\<close> has the method.\<close>

fun dict_get :: "json \<Rightarrow> string \<Rightarrow> json \<Rightarrow> exn + json" where
  "dict_get (JObj kvs) k d = Inr (case map_of kvs k of None \<Rightarrow> d | Some v \<Rightarrow> v)"
| "dict_get _ k d = Inl AttributeError"

text \<open>
  A value used as a key of a \<^verbatim>\<open>dict\<close>: lists and dicts are unhashable, and \<^verbatim>\<open>True\<close>
  and \<^verbatim>\<open>False\<close> are the keys \<^verbatim>\<open>1\<close> and \<^verbatim>\<open>0\<close>.
\<close>

fun dict_key :: "json \<Rightarrow> exn + json" where
  "dict_key (JArr vs) = Inl TypeError"
| "dict_key (JObj kvs) = Inl TypeError"
| "dict_key (JBool b) = Inr (JNum (if b then 1 else 0))"
| "dict_key v = Inr v"

text \<open>\<^verbatim>\<open>datetime.fromisoformat(v)\<close> on what a JSON field holds.\<close>

fun py_fromisoformat :: "lib \<Rightarrow> json \<Rightarrow> exn + datetime" where
  "py_fromisoformat L (JStr s) =
     (case fromisoformat L s of None \<Rightarrow> Inl ValueError | Some t \<Rightarrow> Inr t)"
| "py_fromisoformat L v = Inl TypeError"

fun dt_add :: "datetime \<Rightarrow> int \<Rightarrow> datetime" where
  "dt_add (Naive t) d = Naive (t + d)"
| "dt_add (Aware t) d = Aware (t + d)"

fun dt_less :: "datetime \<Rightarrow> datetime \<Rightarrow> exn + bool" where
  "dt_less (Naive a) (Naive b) = Inr (a < b)"
| "dt_less (Aware a) (Aware b) = Inr (a < b)"
| "dt_less a b = Inl TypeError"

text \<open>
  \<^verbatim>\<open>timedelta(hours=h)\<close> in microseconds, rounded to the nearest one; the durations of
  the policy map are whole numbers of microseconds.
\<close>

definition timedelta_hours :: "rat \<Rightarrow> int" where
  "timedelta_hours h = round (h * 3600000000)"

subsection \<open>F1Cache\<close>

text \<open>\<^verbatim>\<open>self.expiration_policies\<close>, in hours.\<close>

definition expiration_policies :: "string \<rightharpoonup> rat" where
  "expiration_policies = map_of
     [(''sessions'', 24), (''meetings'', 24), (''drivers'', 12), (''laps'', 1),
      (''stints'', 1), (''position'', 1 / 2), (''pit'', 1), (''results'', 2),
      (''default'', 6)]"

text \<open>
  \<^verbatim>\<open>self.expiration_policies.get(endpoint_type, self.expiration_policies["default"])\<close>
\<close>

definition expiration_hours :: "string \<Rightarrow> rat" where
  "expiration_hours endpoint_type =
     (case expiration_policies endpoint_type of
        Some h \<Rightarrow> h
      | None \<Rightarrow> the (expiration_policies ''default''))"

text \<open>
  The body of the \<^verbatim>\<open>try\<close> in \<^verbatim>\<open>get\<close>, on the file that exists: the value returned
  (\<open>JNull\<close> is \<^verbatim>\<open>None\<close>) or the exception raised. \<open>now\<close> is what \<^verbatim>\<open>datetime.now()\<close>
  returns, a naive \<^verbatim>\<open>datetime\<close>.
  \<^verbatim>\<open>
  with open(cache_file, "r") as f:
      cache_data = json.load(f)
  endpoint_type = self._get_endpoint_type(url)
  expiration_hours = self.expiration_policies.get(...)
  cached_time = datetime.fromisoformat(cache_data["cached_at"])
  expiry_time = cached_time + timedelta(hours=expiration_hours)
  if datetime.now() < expiry_time:
      return cache_data["data"]
  return None
  \<close>
\<close>

definition get_try :: "lib \<Rightarrow> int \<Rightarrow> string \<Rightarrow> disk_file \<Rightarrow> exn + json" where
  "get_try L now url f =
     (case json_load f of
        Inl e \<Rightarrow> Inl e
      | Inr cache_data \<Rightarrow>
          (let endpoint_type = get_endpoint_type url
           in case subscript cache_data ''cached_at'' of
                Inl e \<Rightarrow> Inl e
              | Inr c \<Rightarrow>
                  (case py_fromisoformat L c of
                     Inl e \<Rightarrow> Inl e
                   | Inr cached_time \<Rightarrow>
                       (let expiry_time =
                              dt_add cached_time (timedelta_hours (expiration_hours endpoint_type))
                        in case dt_less (Naive now) expiry_time of
                             Inl e \<Rightarrow> Inl e
                           | Inr fresh \<Rightarrow>
                               if fresh then subscript cache_data ''data'' else Inr JNull))))"

text \<open>
  \<^verbatim>\<open>get\<close>: no file, \<^verbatim>\<open>None\<close>; otherwise the \<^verbatim>\<open>try\<close>, whose handler
  \<^verbatim>\<open>except (json.JSONDecodeError, KeyError)\<close> unlinks the file
  (\<^verbatim>\<open>cache_file.unlink(missing_ok=True)\<close>) and returns \<^verbatim>\<open>None\<close>. Every other exception
  leaves the method, and so does the \<^verbatim>\<open>OSError\<close> of an unlink that is refused.
\<close>

definition get :: "lib \<Rightarrow> int \<Rightarrow> string \<Rightarrow> cache_dir \<Rightarrow> (exn + json) \<times> cache_dir" where
  "get L now url fs =
     (let cache_key = get_cache_key L url
      in case map_of fs cache_key of
           None \<Rightarrow> (Inr JNull, fs)
         | Some f \<Rightarrow>
             (case get_try L now url f of
                Inl e \<Rightarrow>
                  if e = JSONDecodeError \<or> e = KeyError
                  then (if unlink L cache_key then (Inr JNull, AList.delete cache_key fs)
                        else (Inl OSError, fs))
                  else (Inl e, fs)
              | Inr v \<Rightarrow> (Inr v, fs)))"

text \<open>
  What happens to the write in \<^verbatim>\<open>set\<close>: the file is written; \<^verbatim>\<open>open\<close> raises and
  nothing changes; or \<^verbatim>\<open>json.dump\<close> raises after \<open>n\<close> bytes, which leaves a truncated
  file. The handler \<^verbatim>\<open>except Exception: pass\<close> swallows both failures.
\<close>

datatype write_outcome = Written | OpenFailed | DumpFailed nat

definition cache_record :: "lib \<Rightarrow> int \<Rightarrow> string \<Rightarrow> json \<Rightarrow> json" where
  "cache_record L now url data =
     JObj [(''url'', JStr url),
           (''endpoint'', JStr (get_endpoint_type url)),
           (''cached_at'', JStr (isoformat L now)),
           (''data'', data)]"

definition set_cache ::
  "lib \<Rightarrow> int \<Rightarrow> write_outcome \<Rightarrow> string \<Rightarrow> json \<Rightarrow> cache_dir \<Rightarrow> cache_dir" where
  "set_cache L now wo url data fs =
     (let cache_key = get_cache_key L url;
          cache_data = cache_record L now url data
      in case wo of
           Written \<Rightarrow>
             AList.update cache_key
               \<lparr>body = Parsed cache_data, st_size = dump_size L cache_data\<rparr> fs
         | OpenFailed \<Rightarrow> fs
         | DumpFailed n \<Rightarrow> AList.update cache_key \<lparr>body = Malformed, st_size = n\<rparr> fs)"

text \<open>
  One round of the loop of \<^verbatim>\<open>clear\<close>, on the counter \<open>cleared\<close> and the directory:
  \<^verbatim>\<open>
  try:
      with open(cache_file, "r") as f:
          cache_data = json.load(f)
      if endpoint is None or cache_data.get("endpoint") == endpoint:
          cache_file.unlink()
          cleared += 1
  except Exception:
      cache_file.unlink()
  \<close>
  The round ends with the counter and the directory, or with the exception that
  leaves \<^verbatim>\<open>clear\<close>. An unlink that is refused in the \<^verbatim>\<open>try\<close> raises before the counter
  is incremented; the handler then unlinks the same file, is refused too, and its
  \<^verbatim>\<open>OSError\<close> is not caught.
\<close>

definition clear_step ::
  "lib \<Rightarrow> string option \<Rightarrow> nat \<times> cache_dir \<Rightarrow> string \<times> disk_file
     \<Rightarrow> exn + nat \<times> cache_dir" where
  "clear_step L endpoint acc entry =
     (let cleared = fst acc; fs = snd acc; cache_file = fst entry;
          handler = (if unlink L cache_file then Inr (cleared, AList.delete cache_file fs)
                     else Inl OSError);
          selected = (if unlink L cache_file then Inr (cleared + 1, AList.delete cache_file fs)
                      else handler)
      in case json_load (snd entry) of
           Inl e \<Rightarrow> handler
         | Inr cache_data \<Rightarrow>
             (case endpoint of
                None \<Rightarrow> selected
              | Some ep \<Rightarrow>
                  (case dict_get cache_data ''endpoint'' JNull of
                     Inl e \<Rightarrow> handler
                   | Inr v \<Rightarrow> if v = JStr ep then selected else Inr (cleared, fs))))"

text \<open>
  The loop over the files that \<^verbatim>\<open>glob\<close> yields. An exception ends it with the
  directory as the rounds before have left it.
\<close>

fun clear_loop ::
  "lib \<Rightarrow> string option \<Rightarrow> nat \<times> cache_dir \<Rightarrow> (string \<times> disk_file) list
     \<Rightarrow> (exn + nat) \<times> cache_dir" where
  "clear_loop L endpoint acc [] = (Inr (fst acc), snd acc)"
| "clear_loop L endpoint acc (entry # rest) =
     (case clear_step L endpoint acc entry of
        Inl e \<Rightarrow> (Inl e, snd acc)
      | Inr acc' \<Rightarrow> clear_loop L endpoint acc' rest)"

text \<open>
  \<^verbatim>\<open>clear\<close> returns \<^verbatim>\<open>None\<close> and prints the counter
  (\<^verbatim>\<open>Cleared {cleared} cache entries\<close>); the model returns the counter printed, or
  the exception raised, in which case nothing is printed, with the directory left
  behind.
\<close>

definition clear :: "lib \<Rightarrow> string option \<Rightarrow> cache_dir \<Rightarrow> (exn + nat) \<times> cache_dir" where
  "clear L endpoint fs = clear_loop L endpoint (0, fs) fs"

record cache_stats =
  total :: nat
  by_endpoint :: "json \<rightharpoonup> nat"
  oldest :: "datetime option"
  newest :: "datetime option"
  total_size :: nat

text \<open>
  \<^verbatim>\<open>stats["oldest"] is None or cached_time < stats["oldest"]\<close> and
  \<^verbatim>\<open>stats["newest"] is None or cached_time > stats["newest"]\<close>
\<close>

definition is_older :: "datetime \<Rightarrow> datetime option \<Rightarrow> exn + bool" where
  "is_older cached_time cur = (case cur of None \<Rightarrow> Inr True | Some t \<Rightarrow> dt_less cached_time t)"

definition is_newer :: "datetime \<Rightarrow> datetime option \<Rightarrow> exn + bool" where
  "is_newer cached_time cur = (case cur of None \<Rightarrow> Inr True | Some t \<Rightarrow> dt_less t cached_time)"

text \<open>
  One round of the loop of \<^verbatim>\<open>stats\<close>. The dictionary is updated in place, so what a
  round has written before an exception stays; \<^verbatim>\<open>except Exception: continue\<close> ends the
  round.
  \<^verbatim>\<open>
  with open(cache_file, "r") as f:
      cache_data = json.load(f)
  stats["total"] += 1
  stats["total_size"] += cache_file.stat().st_size
  endpoint = cache_data.get("endpoint", "unknown")
  stats["by_endpoint"][endpoint] = stats["by_endpoint"].get(endpoint, 0) + 1
  cached_time = datetime.fromisoformat(cache_data["cached_at"])
  if stats["oldest"] is None or cached_time < stats["oldest"]:
      stats["oldest"] = cached_time
  if stats["newest"] is None or cached_time > stats["newest"]:
      stats["newest"] = cached_time
  \<close>
\<close>

definition stats_step :: "lib \<Rightarrow> cache_stats \<Rightarrow> disk_file \<Rightarrow> cache_stats" where
  "stats_step L s f =
     (case json_load f of
        Inl e \<Rightarrow> s
      | Inr cache_data \<Rightarrow>
          (let s1 = s\<lparr>total := total s + 1\<rparr>;
               s2 = s1\<lparr>total_size := total_size s1 + st_size f\<rparr>
           in case dict_get cache_data ''endpoint'' (JStr ''unknown'') of
                Inl e \<Rightarrow> s2
              | Inr endpoint \<Rightarrow>
                  (case dict_key endpoint of
                     Inl e \<Rightarrow> s2
                   | Inr k \<Rightarrow>
                       (let s3 = s2\<lparr>by_endpoint := (by_endpoint s2)
                                   (k \<mapsto> (case by_endpoint s2 k of None \<Rightarrow> 0 | Some n \<Rightarrow> n) + 1)\<rparr>
                        in case subscript cache_data ''cached_at'' of
                             Inl e \<Rightarrow> s3
                           | Inr c \<Rightarrow>
                               (case py_fromisoformat L c of
                                  Inl e \<Rightarrow> s3
                                | Inr cached_time \<Rightarrow>
                                    (case is_older cached_time (oldest s3) of
                                       Inl e \<Rightarrow> s3
                                     | Inr lt \<Rightarrow>
                                         (let s4 = (if lt then s3\<lparr>oldest := Some cached_time\<rparr>
                                                    else s3)
                                          in case is_newer cached_time (newest s4) of
                                               Inl e \<Rightarrow> s4
                                             | Inr gt \<Rightarrow>
                                                 if gt then s4\<lparr>newest := Some cached_time\<rparr>
                                                 else s4)))))))"

definition stats_init :: cache_stats where
  "stats_init = \<lparr>total = 0, by_endpoint = Map.empty, oldest = None, newest = None,
                 total_size = 0\<rparr>"

text \<open>\<^verbatim>\<open>stats\<close> returns the dictionary; the directory is returned as the scan leaves it.\<close>

definition stats :: "lib \<Rightarrow> cache_dir \<Rightarrow> cache_stats \<times> cache_dir" where
  "stats L fs = (foldl (stats_step L) stats_init (map snd fs), fs)"

subsection \<open>fetch_json\<close>

text \<open>
  What \<^verbatim>\<open>session.get(url, timeout=...)\<close>, \<^verbatim>\<open>raise_for_status()\<close> and \<^verbatim>\<open>response.json()\<close>
  come to, retries included: the decoded body, an \<^verbatim>\<open>HTTPError\<close> with its status, a
  \<^verbatim>\<open>Timeout\<close>, or another \<^verbatim>\<open>RequestException\<close>.
\<close>

datatype response = Success json | HTTPError nat | Timeout | RequestException

text \<open>
  The world \<^verbatim>\<open>fetch_json\<close> acts on: the directory of the shared \<^verbatim>\<open>f1_cache\<close> and the
  requests sent so far.
\<close>

record world =
  cache :: cache_dir
  sent :: "string list"

text \<open>
  The network leg (lines 19 to 50 of \<^verbatim>\<open>api.py\<close>). \<open>net\<close> is the network, \<open>t\<close> the
  clock reading of \<^verbatim>\<open>set\<close> and \<open>wo\<close> what happens to its write.
\<close>

definition network_leg ::
  "lib \<Rightarrow> (string \<Rightarrow> response) \<Rightarrow> int \<Rightarrow> write_outcome \<Rightarrow> string \<Rightarrow> world
     \<Rightarrow> (exn + json) \<times> world" where
  "network_leg L net t wo url w =
     (let w' = w\<lparr>sent := sent w @ [url]\<rparr>
      in case net url of
           Success data \<Rightarrow> (Inr data, w'\<lparr>cache := set_cache L t wo url data (cache w')\<rparr>)
         | HTTPError status_code \<Rightarrow> (Inr JNull, w')
         | Timeout \<Rightarrow> (Inr JNull, w')
         | RequestException \<Rightarrow> (Inr JNull, w'))"

text \<open>
  \<^verbatim>\<open>
  def fetch_json(url, force_refresh=False):
      if not force_refresh:
          cached_data = f1_cache.get(url)
          if cached_data is not None:
              return cached_data
      ...
  \<close>
  \<open>t_get\<close> is the clock reading of \<^verbatim>\<open>get\<close>, \<open>t_set\<close> that of \<^verbatim>\<open>set\<close>. An exception of
  \<^verbatim>\<open>get\<close> leaves \<^verbatim>\<open>fetch_json\<close>.
\<close>

definition fetch_json ::
  "lib \<Rightarrow> (string \<Rightarrow> response) \<Rightarrow> int \<Rightarrow> int \<Rightarrow> write_outcome \<Rightarrow> string \<Rightarrow> bool \<Rightarrow> world
     \<Rightarrow> (exn + json) \<times> world" where
  "fetch_json L net t_get t_set wo url force_refresh w =
     (if \<not> force_refresh then
        (case get L t_get url (cache w) of
           (Inl e, fs) \<Rightarrow> (Inl e, w\<lparr>cache := fs\<rparr>)
         | (Inr cached_data, fs) \<Rightarrow>
             if cached_data \<noteq> JNull then (Inr cached_data, w\<lparr>cache := fs\<rparr>)
             else network_leg L net t_set wo url (w\<lparr>cache := fs\<rparr>))
      else network_leg L net t_set wo url w)"

subsection \<open>A sample of the library\<close>

text \<open>
  Closed instances of the theorems need the library at a few points. The sample takes
  them from Python: the MD5 digests of two cleaned identities, and the ISO formats of
  the instants 2024-03-01T12:00:00 (63844891200000000 microseconds after
  0001-01-01T00:00:00) and 2024-03-01T13:00:00, which \<^verbatim>\<open>fromisoformat\<close> reads back;
  \<^verbatim>\<open>fromisoformat\<close> raises \<^verbatim>\<open>ValueError\<close> on \<^verbatim>\<open>"yesterday"\<close>. The record of \<open>laps_url\<close>
  with \<open>laps_payload\<close> written at \<open>noon\<close> takes 173 bytes. Every file can be
  unlinked but \<^verbatim>\<open>locked.json\<close>, which is a directory. Elsewhere the sample is
  arbitrary, and no theorem reads it there.
\<close>

definition laps_url :: string where
  "laps_url = ''https://api.openf1.org/v1/laps?session_key=9636''"

definition laps_key :: string where
  "laps_key = ''c81902ec0c5a61d4170b8e6d5e19c780''"

definition noon :: int where
  "noon = 63844891200000000"

definition laps_payload :: json where
  "laps_payload = JArr [JObj [(''lap_number'', JNum 1)]]"

definition sample_lib :: lib where
  "sample_lib =
     \<lparr>md5 = (\<lambda>s. if s = ''api.openf1.org/v1/laps?session_key=9636''
                 then 0xc81902ec0c5a61d4170b8e6d5e19c780
                 else if s = ''api.openf1.org/v1/sessions?year=2024''
                 then 0x2609f890f2afe8bbcd23ca9bfb44b94a
                 else 0),
      fromisoformat = (\<lambda>s. if s = ''2024-03-01T12:00:00''
                           then Some (Naive 63844891200000000)
                           else if s = ''2024-03-01T13:00:00''
                           then Some (Naive 63844894800000000)
                           else None),
      isoformat = (\<lambda>t. if t = 63844891200000000 then ''2024-03-01T12:00:00''
                       else if t = 63844894800000000 then ''2024-03-01T13:00:00''
                       else []),
      dump_size = (\<lambda>v. 173),
      unlink = (\<lambda>name. name \<noteq> ''locked'')\<rparr>"

text \<open>
  A directory of three files: the record of \<open>laps_url\<close> written at noon, the record
  of \<open>sessions_url\<close> written an hour later (137 bytes), and a file that is not JSON.
\<close>

definition sessions_url :: string where
  "sessions_url = ''https://api.openf1.org/v1/sessions?year=2024''"

definition sessions_key :: string where
  "sessions_key = ''2609f890f2afe8bbcd23ca9bfb44b94a''"

definition sample_dir :: cache_dir where
  "sample_dir =
     [(laps_key,
       \<lparr>body = Parsed (cache_record sample_lib noon laps_url laps_payload), st_size = 173\<rparr>),
      (sessions_key,
       \<lparr>body = Parsed (cache_record sample_lib (noon + 3600000000) sessions_url (JArr [])),
        st_size = 137\<rparr>),
      (''broken'', \<lparr>body = Malformed, st_size = 12\<rparr>)]"

text \<open>The same directory with \<^verbatim>\<open>locked.json\<close>, a directory, between the two records.\<close>

definition locked_dir :: cache_dir where
  "locked_dir =
     [(laps_key,
       \<lparr>body = Parsed (cache_record sample_lib noon laps_url laps_payload), st_size = 173\<rparr>),
      (''locked'', \<lparr>body = Unreadable, st_size = 4096\<rparr>),
      (sessions_key,
       \<lparr>body = Parsed (cache_record sample_lib (noon + 3600000000) sessions_url (JArr [])),
        st_size = 137\<rparr>)]"

text \<open>Two networks: one that answers every request with \<open>laps_payload\<close>, one that times out.\<close>

definition net_ok :: "string \<Rightarrow> response" where
  "net_ok url = Success laps_payload"

definition net_timeout :: "string \<Rightarrow> response" where
  "net_timeout url = Timeout"

text \<open>The network leg failed: \<^verbatim>\<open>fetch_json\<close> took one of its three \<^verbatim>\<open>except\<close> branches.\<close>

definition failed :: "response \<Rightarrow> bool" where
  "failed r = (case r of Success data \<Rightarrow> False | _ \<Rightarrow> True)"

subsection \<open>What the scans do with an entry\<close>

text \<open>
  The ways a round of \<^verbatim>\<open>clear\<close> can go, as predicates on the entry: the entry
  parses and is selected (\<open>endpoint is None\<close>, or its stored category is the argument),
  so it is unlinked and counted; or the \<^verbatim>\<open>try\<close> raises before its unlink (the file
  does not load, or \<^verbatim>\<open>cache_data.get\<close> does not exist), so it is unlinked by the
  handler; or neither. The unlink of an entry that is to go is \<open>refused\<close> when
  \<^verbatim>\<open>Path.unlink\<close> raises on its name.
\<close>

definition parses :: "disk_file \<Rightarrow> bool" where
  "parses f = (case json_load f of Inl e \<Rightarrow> False | Inr v \<Rightarrow> True)"

definition category_matches :: "string option \<Rightarrow> disk_file \<Rightarrow> bool" where
  "category_matches endpoint f =
     (case json_load f of
        Inl e \<Rightarrow> False
      | Inr cache_data \<Rightarrow>
          (case endpoint of
             None \<Rightarrow> True
           | Some ep \<Rightarrow> dict_get cache_data ''endpoint'' JNull = Inr (JStr ep)))"

definition scan_fails :: "string option \<Rightarrow> disk_file \<Rightarrow> bool" where
  "scan_fails endpoint f =
     (case json_load f of
        Inl e \<Rightarrow> True
      | Inr cache_data \<Rightarrow>
          (case endpoint of
             None \<Rightarrow> False
           | Some ep \<Rightarrow>
               (case dict_get cache_data ''endpoint'' JNull of Inl e \<Rightarrow> True | Inr v \<Rightarrow> False)))"

definition refused :: "lib \<Rightarrow> string option \<Rightarrow> string \<times> disk_file \<Rightarrow> bool" where
  "refused L endpoint entry =
     ((category_matches endpoint (snd entry) \<or> scan_fails endpoint (snd entry))
      \<and> \<not> unlink L (fst entry))"

text \<open>
  What \<^verbatim>\<open>stats\<close> takes from an entry: the key of \<^verbatim>\<open>by_endpoint\<close> it is counted under,
  when the round gets that far, and the time it enters the comparisons with, when
  the round gets that far.
\<close>

definition counted_category :: "disk_file \<Rightarrow> json option" where
  "counted_category f =
     (case json_load f of
        Inl e \<Rightarrow> None
      | Inr cache_data \<Rightarrow>
          (case dict_get cache_data ''endpoint'' (JStr ''unknown'') of
             Inl e \<Rightarrow> None
           | Inr endpoint \<Rightarrow>
               (case dict_key endpoint of Inl e \<Rightarrow> None | Inr k \<Rightarrow> Some k)))"

definition counted_time :: "lib \<Rightarrow> disk_file \<Rightarrow> datetime option" where
  "counted_time L f =
     (case counted_category f of
        None \<Rightarrow> None
      | Some k \<Rightarrow>
          (case json_load f of
             Inl e \<Rightarrow> None
           | Inr cache_data \<Rightarrow>
               (case subscript cache_data ''cached_at'' of
                  Inl e \<Rightarrow> None
                | Inr c \<Rightarrow>
                    (case py_fromisoformat L c of Inl e \<Rightarrow> None | Inr t \<Rightarrow> Some t))))"

text \<open>
  The times that reach the comparisons of \<^verbatim>\<open>stats\<close>, in the order of the scan. A
  \<^verbatim>\<open>datetime\<close> is naive or aware, with its microseconds; \<open>kin_time K\<close> is the time of
  an entry when it is of the kind \<open>K\<close> (aware or not).
\<close>

fun aware :: "datetime \<Rightarrow> bool" where
  "aware (Naive t) = False"
| "aware (Aware t) = True"

fun micros :: "datetime \<Rightarrow> int" where
  "micros (Naive t) = t"
| "micros (Aware t) = t"

definition stamp :: "bool \<Rightarrow> int \<Rightarrow> datetime" where
  "stamp K v = (if K then Aware v else Naive v)"

definition kin_time :: "bool \<Rightarrow> lib \<Rightarrow> disk_file \<Rightarrow> int option" where
  "kin_time K L f =
     (case counted_time L f of
        None \<Rightarrow> None
      | Some t \<Rightarrow> if aware t = K then Some (micros t) else None)"

text \<open>
  The two conditional assignments of a round, on the microseconds: the value of
  \<^verbatim>\<open>stats["oldest"]\<close> (of \<^verbatim>\<open>stats["newest"]\<close>) after a round that compared the time
  \<open>t\<close> with it.
\<close>

definition keep_min :: "int option \<Rightarrow> int \<Rightarrow> int option" where
  "keep_min a t = Some (case a of None \<Rightarrow> t | Some b \<Rightarrow> min t b)"

definition keep_max :: "int option \<Rightarrow> int \<Rightarrow> int option" where
  "keep_max a t = Some (case a of None \<Rightarrow> t | Some b \<Rightarrow> max t b)"

section \<open>Properties\<close>

subsection \<open>Splitting and replacing\<close>

lemma str_split_not_Nil: "str_split sep s \<noteq> []"
  by (induction s) (auto split: list.splits)

lemma str_split_no_sep: "sep \<notin> set p \<Longrightarrow> str_split sep p = [p]"
  by (induction p) (auto split: list.splits)

lemma str_split_append:
  "sep \<notin> set p \<Longrightarrow> str_split sep (p @ sep # r) = p # str_split sep r"
  by (induction p) (auto split: list.splits)

lemma hd_str_split: "hd (str_split sep s) = takeWhile (\<lambda>c. c \<noteq> sep) s"
  by (induction s) (auto split: list.splits simp: str_split_not_Nil)

lemma length_str_split: "length (str_split sep s) = Suc (count_list s sep)"
  by (induction s) (auto simp: str_split_not_Nil split: list.splits)

lemma replace_https_prefix:
  "str_replace_empty ''https://'' (''https://'' @ s) = str_replace_empty ''https://'' s"
  by simp

lemma replace_https_http_prefix:
  "str_replace_empty ''https://'' (''http://'' @ s) = ''http://'' @ str_replace_empty ''https://'' s"
  by simp

lemma replace_http_prefix:
  "str_replace_empty ''http://'' (''http://'' @ s) = str_replace_empty ''http://'' s"
  by simp

lemma length_hexdigest: "length (hexdigest w) = 32"
  by (simp add: hexdigest_def)

subsection \<open>Key derivation\<close>

text \<open>
  Claim C4. Key derivation is scheme-insensitive: for every string \<open>s\<close> the key of
  \<^verbatim>\<open>"https://" + s\<close> is the key of \<^verbatim>\<open>"http://" + s\<close> (and the key of \<open>s\<close> itself), so
  requests with one logical identity have one key, whatever the scheme prefix; the
  key has a fixed width, the 32 hexadecimal digits of a 128-bit digest.
\<close>

theorem key_scheme_insensitive:
  "get_cache_key L (''https://'' @ s) = get_cache_key L (''http://'' @ s)
   \<and> get_cache_key L (''https://'' @ s) = get_cache_key L s
   \<and> length (get_cache_key L (''https://'' @ s)) = 32
   \<and> length (get_cache_key L (''http://'' @ s)) = 32"
  unfolding get_cache_key_def clean_url_def
  by (simp only: replace_https_prefix replace_https_http_prefix replace_http_prefix
        length_hexdigest simp_thms)

subsection \<open>Category derivation\<close>

lemma get_endpoint_type_default:
  "count_list url CHR ''/'' < 4 \<Longrightarrow> get_endpoint_type url = ''default''"
  by (simp add: get_endpoint_type_def length_str_split)

lemma nth4_split:
  assumes "CHR ''/'' \<notin> set p0" "CHR ''/'' \<notin> set p1" "CHR ''/'' \<notin> set p2" "CHR ''/'' \<notin> set p3"
  shows "str_split CHR ''/'' (p0 @ CHR ''/'' # p1 @ CHR ''/'' # p2 @ CHR ''/'' # p3 @ CHR ''/'' # r)
         = p0 # p1 # p2 # p3 # str_split CHR ''/'' r"
  using assms by (simp add: str_split_append)

lemma get_endpoint_type_shape:
  assumes "CHR ''/'' \<notin> set p0" "CHR ''/'' \<notin> set p1" "CHR ''/'' \<notin> set p2" "CHR ''/'' \<notin> set p3"
  shows "get_endpoint_type (p0 @ CHR ''/'' # p1 @ CHR ''/'' # p2 @ CHR ''/'' # p3 @ CHR ''/'' # r)
         = takeWhile (\<lambda>c. c \<noteq> CHR ''?'') (takeWhile (\<lambda>c. c \<noteq> CHR ''/'') r)"
proof -
  let ?url = "p0 @ CHR ''/'' # p1 @ CHR ''/'' # p2 @ CHR ''/'' # p3 @ CHR ''/'' # r"
  obtain q qs where r: "str_split CHR ''/'' r = q # qs"
    using str_split_not_Nil [of "CHR ''/''" r] by (cases "str_split CHR ''/'' r") auto
  have q: "q = takeWhile (\<lambda>c. c \<noteq> CHR ''/'') r"
    using hd_str_split [of "CHR ''/''" r] r by simp
  have parts: "str_split CHR ''/'' ?url = p0 # p1 # p2 # p3 # q # qs"
    using nth4_split [OF assms, of r] r by simp
  show ?thesis
    by (simp add: get_endpoint_type_def parts hd_str_split q)
qed

lemma takeWhile_absent: "c \<notin> set xs \<Longrightarrow> takeWhile (\<lambda>x. x \<noteq> c) xs = xs"
  by (induction xs) auto

lemma takeWhile_absent_append:
  "c \<notin> set xs \<Longrightarrow> takeWhile (\<lambda>x. x \<noteq> c) (xs @ ys) = xs @ takeWhile (\<lambda>x. x \<noteq> c) ys"
  by (induction xs) auto

lemma takeWhile_stop: "c \<notin> set xs \<Longrightarrow> takeWhile (\<lambda>x. x \<noteq> c) (xs @ c # ys) = xs"
  by (induction xs) auto

lemma get_endpoint_type_segment:
  assumes "CHR ''/'' \<notin> set p0" "CHR ''/'' \<notin> set p1" "CHR ''/'' \<notin> set p2" "CHR ''/'' \<notin> set p3"
    and seg: "CHR ''/'' \<notin> set seg" "CHR ''?'' \<notin> set seg"
    and rest: "rest = [] \<or> hd rest = CHR ''?'' \<or> hd rest = CHR ''/''"
  shows "get_endpoint_type (p0 @ CHR ''/'' # p1 @ CHR ''/'' # p2 @ CHR ''/'' # p3 @ CHR ''/'' # seg @ rest) = seg"
proof -
  have "takeWhile (\<lambda>c. c \<noteq> CHR ''?'') (takeWhile (\<lambda>c. c \<noteq> CHR ''/'') (seg @ rest)) = seg"
  proof (cases rest)
    case Nil
    then show ?thesis using seg by (simp add: takeWhile_absent)
  next
    case (Cons c cs)
    with rest consider "c = CHR ''?''" | "c = CHR ''/''" by auto
    then show ?thesis
    proof cases
      case 1
      then show ?thesis
        using seg Cons by (simp add: takeWhile_absent_append takeWhile_stop)
    next
      case 2
      then show ?thesis
        using seg Cons by (simp add: takeWhile_stop takeWhile_absent)
    qed
  qed
  then show ?thesis using get_endpoint_type_shape [OF assms(1-4)] by simp
qed

text \<open>
  Claim C9. The category of an identity string is its fifth piece between slashes,
  cut at the first question mark: for an identity of the shape
  \<^verbatim>\<open>scheme//host/version/segment...\<close>, whose first four pieces are the fixed prefix
  up to the API version, it is the first path segment after that prefix, without the
  query string. An identity with fewer than five pieces (fewer than four slashes)
  has the category \<^verbatim>\<open>default\<close>.
\<close>

theorem category_derivation:
  "(count_list url CHR ''/'' < 4 \<longrightarrow> get_endpoint_type url = ''default'')
   \<and> (CHR ''/'' \<notin> set p0 \<and> CHR ''/'' \<notin> set p1 \<and> CHR ''/'' \<notin> set p2 \<and> CHR ''/'' \<notin> set p3
        \<and> CHR ''/'' \<notin> set seg \<and> CHR ''?'' \<notin> set seg
        \<and> (rest = [] \<or> hd rest = CHR ''?'' \<or> hd rest = CHR ''/'')
      \<longrightarrow> get_endpoint_type
            (p0 @ ''/'' @ p1 @ ''/'' @ p2 @ ''/'' @ p3 @ ''/'' @ seg @ rest) = seg)"
  using get_endpoint_type_default [of url]
    get_endpoint_type_segment [of p0 p1 p2 p3 seg rest]
  by simp

theorem category_derivation_witness:
  "count_list ''https://example.com/data'' CHR ''/'' < 4
   \<and> get_endpoint_type ''https://example.com/data'' = ''default''
   \<and> get_endpoint_type ''https://api.openf1.org/v1/laps?a=1'' = ''laps''"
  using category_derivation [of "''https://example.com/data''"
      "''https:''" "[]" "''api.openf1.org''" "''v1''" "''laps''" "''?a=1''"]
  by simp

subsection \<open>The sample\<close>

lemma laps_key_eq: "get_cache_key sample_lib laps_url = laps_key"
  by (simp add: get_cache_key_def clean_url_def sample_lib_def laps_url_def laps_key_def
        hexdigest_def hex_digit_def upt_rec drop_bit_eq_div)

lemma laps_category: "get_endpoint_type laps_url = ''laps''"
  by (simp add: get_endpoint_type_def laps_url_def)

lemma expiration_hours_laps: "timedelta_hours (expiration_hours ''laps'') = 3600000000"
  by (simp add: expiration_hours_def expiration_policies_def timedelta_hours_def)

lemma sample_roundtrip: "fromisoformat sample_lib (isoformat sample_lib noon) = Some (Naive noon)"
  by (simp add: sample_lib_def noon_def)

subsection \<open>Lookup\<close>

lemma map_of_set_cache:
  "map_of (set_cache L T Written url data fs) (get_cache_key L url)
   = Some \<lparr>body = Parsed (cache_record L T url data),
           st_size = dump_size L (cache_record L T url data)\<rparr>"
  by (simp add: set_cache_def Let_def update_conv')

lemma get_try_record:
  assumes "fromisoformat L (isoformat L T) = Some (Naive T)"
  shows "get_try L now url \<lparr>body = Parsed (cache_record L T url data), st_size = n\<rparr>
         = Inr (if now < T + timedelta_hours (expiration_hours (get_endpoint_type url))
                then data else JNull)"
  using assms by (simp add: get_try_def json_load_def cache_record_def)

lemma get_after_set:
  assumes "fromisoformat L (isoformat L T) = Some (Naive T)"
  shows "get L now url (set_cache L T Written url data fs)
         = (Inr (if now < T + timedelta_hours (expiration_hours (get_endpoint_type url))
                 then data else JNull),
            set_cache L T Written url data fs)"
  by (simp add: get_def map_of_set_cache get_try_record [OF assms])

text \<open>
  Claim C1 says that \<^verbatim>\<open>get\<close> returns \<^verbatim>\<open>None\<close> and never raises, whatever the cache
  holds, a malformed timestamp field and an I/O failure included. The handler of
  \<^verbatim>\<open>get\<close> catches \<^verbatim>\<open>json.JSONDecodeError\<close> and \<^verbatim>\<open>KeyError\<close> only, so the lookup
  raises: \<^verbatim>\<open>ValueError\<close> on a record whose \<^verbatim>\<open>cached_at\<close> is the string
  \<^verbatim>\<open>"yesterday"\<close>, \<^verbatim>\<open>TypeError\<close> on a record whose \<^verbatim>\<open>cached_at\<close> is \<^verbatim>\<open>null\<close>,
  \<^verbatim>\<open>UnicodeDecodeError\<close> on a file that is not text and \<^verbatim>\<open>OSError\<close> on a file that
  cannot be opened. None of these files is deleted.
\<close>

theorem get_raises:
  "get sample_lib noon laps_url
     [(laps_key, \<lparr>body = Parsed (JObj [(''url'', JStr laps_url), (''endpoint'', JStr ''laps''),
                                       (''cached_at'', JStr ''yesterday''),
                                       (''data'', laps_payload)]),
                  st_size = 163\<rparr>)]
   = (Inl ValueError,
      [(laps_key, \<lparr>body = Parsed (JObj [(''url'', JStr laps_url), (''endpoint'', JStr ''laps''),
                                       (''cached_at'', JStr ''yesterday''),
                                       (''data'', laps_payload)]),
                  st_size = 163\<rparr>)])
   \<and> get L now url
        [(get_cache_key L url, \<lparr>body = Parsed (JObj [(''cached_at'', JNull), (''data'', d)]),
                                 st_size = n\<rparr>)]
      = (Inl TypeError,
         [(get_cache_key L url, \<lparr>body = Parsed (JObj [(''cached_at'', JNull), (''data'', d)]),
                                  st_size = n\<rparr>)])
   \<and> get L now url [(get_cache_key L url, \<lparr>body = Undecodable, st_size = n\<rparr>)]
      = (Inl UnicodeDecodeError, [(get_cache_key L url, \<lparr>body = Undecodable, st_size = n\<rparr>)])
   \<and> get L now url [(get_cache_key L url, \<lparr>body = Unreadable, st_size = n\<rparr>)]
      = (Inl OSError, [(get_cache_key L url, \<lparr>body = Unreadable, st_size = n\<rparr>)])"
  by (simp add: get_def get_try_def json_load_def laps_key_eq) (simp add: sample_lib_def)

text \<open>
  Claim C2. An entry stored at time \<open>T\<close> by \<^verbatim>\<open>set\<close> for \<open>url\<close>, whose category has the
  duration \<open>H = expiration_hours (get_endpoint_type url)\<close>, is returned by \<^verbatim>\<open>get\<close> at
  the time \<open>now\<close> exactly when \<open>now < T + H\<close>: the payload before \<open>T + H\<close>, \<^verbatim>\<open>None\<close> at
  \<open>T + H\<close> and later. The duration of a category is its entry in the policy map, and
  that of \<^verbatim>\<open>default\<close> for a category the map does not have. (\<^verbatim>\<open>fromisoformat\<close> is
  taken to read back what \<^verbatim>\<open>isoformat\<close> wrote.)
\<close>

theorem freshness_boundary:
  "(fromisoformat L (isoformat L T) = Some (Naive T) \<longrightarrow>
      get L now url (set_cache L T Written url data fs)
      = (Inr (if now < T + timedelta_hours (expiration_hours (get_endpoint_type url))
              then data else JNull),
         set_cache L T Written url data fs))
   \<and> (expiration_policies c = Some h \<longrightarrow> expiration_hours c = h)
   \<and> (expiration_policies c = None \<longrightarrow>
        expiration_hours c = the (expiration_policies ''default''))"
  using get_after_set [of L T now url data fs]
  by (simp add: expiration_hours_def)

theorem freshness_boundary_witness:
  "fromisoformat sample_lib (isoformat sample_lib noon) = Some (Naive noon)
   \<and> fst (get sample_lib (noon + 3599999999) laps_url
            (set_cache sample_lib noon Written laps_url laps_payload [])) = Inr laps_payload
   \<and> fst (get sample_lib (noon + 3600000000) laps_url
            (set_cache sample_lib noon Written laps_url laps_payload [])) = Inr JNull
   \<and> expiration_policies ''laps'' = Some 1
   \<and> expiration_hours ''laps'' = 1
   \<and> expiration_policies ''weather'' = None
   \<and> expiration_hours ''weather'' = the (expiration_policies ''default'')"
proof -
  have p1: "expiration_policies ''laps'' = Some 1"
    by (simp add: expiration_policies_def)
  have p2: "expiration_policies ''weather'' = None"
    by (simp add: expiration_policies_def)
  show ?thesis
    using sample_roundtrip p1 p2
      freshness_boundary [of sample_lib noon "noon + 3599999999" laps_url laps_payload "[]"
        "''laps''" 1]
      freshness_boundary [of sample_lib noon "noon + 3600000000" laps_url laps_payload "[]"
        "''weather''" 1]
    by (simp add: laps_category expiration_hours_laps timedelta_hours_def)
qed

subsection \<open>What a lookup does to the directory\<close>

lemma get_dir:
  "snd (get L now url fs) = fs \<or> snd (get L now url fs) = AList.delete (get_cache_key L url) fs"
  by (simp add: get_def Let_def split: option.splits sum.splits)

lemma get_keeps_readable:
  "map_of fs (get_cache_key L url) = Some f \<Longrightarrow> get_try L now url f = Inr v
   \<Longrightarrow> get L now url fs = (Inr v, fs)"
  by (simp add: get_def)

lemma get_hit_dir:
  "fst (get L now url fs) = Inr v \<Longrightarrow> v \<noteq> JNull \<Longrightarrow> snd (get L now url fs) = fs"
  by (auto simp: get_def Let_def split: option.splits sum.splits if_splits)

lemma get_map_of:
  "map_of (snd (get L now url fs)) k = Some f \<Longrightarrow> map_of fs k = Some f"
  using get_dir [of L now url fs]
  by (auto simp: delete_conv' split: if_splits)

lemma get_map_of_other:
  "k \<noteq> get_cache_key L url \<Longrightarrow> map_of (snd (get L now url fs)) k = map_of fs k"
  using get_dir [of L now url fs]
  by (auto simp: delete_conv')

lemma get_then_update:
  "map_of (AList.update (get_cache_key L url) f (snd (get L now url fs)))
   = (map_of fs)(get_cache_key L url \<mapsto> f)"
  using get_dir [of L now url fs]
  by (auto simp: update_conv' delete_conv')

subsection \<open>fetch\<close>

lemma fst_network_leg:
  "fst (network_leg L net t wo url w)
   = (case net url of Success data \<Rightarrow> Inr data | _ \<Rightarrow> Inr JNull)"
  by (simp add: network_leg_def Let_def split: response.splits)

lemma sent_network_leg: "sent (snd (network_leg L net t wo url w)) = sent w @ [url]"
  by (simp add: network_leg_def Let_def split: response.splits)

lemma network_leg_failed:
  "failed (net url) \<Longrightarrow> network_leg L net t wo url w = (Inr JNull, w\<lparr>sent := sent w @ [url]\<rparr>)"
  by (simp add: network_leg_def failed_def Let_def split: response.splits)

lemma network_leg_success:
  "net url = Success data \<Longrightarrow>
   network_leg L net t wo url w
   = (Inr data, w\<lparr>sent := sent w @ [url], cache := set_cache L t wo url data (cache w)\<rparr>)"
  by (simp add: network_leg_def Let_def)

lemma fetch_hit:
  assumes "fst (get L t1 url (cache w)) = Inr v" "v \<noteq> JNull"
  shows "fetch_json L net t1 t2 wo url False w = (Inr v, w)"
proof -
  obtain r fs where g: "get L t1 url (cache w) = (r, fs)" by (cases "get L t1 url (cache w)")
  with assms(1) have r: "r = Inr v" by simp
  from get_hit_dir [OF assms] g have "fs = cache w" by simp
  with g r assms(2) show ?thesis by (simp add: fetch_json_def)
qed

lemma fetch_miss:
  assumes "fst (get L t1 url (cache w)) = Inr JNull"
  shows "fetch_json L net t1 t2 wo url False w
         = network_leg L net t2 wo url (w\<lparr>cache := snd (get L t1 url (cache w))\<rparr>)"
  using assms by (cases "get L t1 url (cache w)") (simp add: fetch_json_def)

lemma fetch_raise:
  assumes "fst (get L t1 url (cache w)) = Inl e"
  shows "fetch_json L net t1 t2 wo url False w = (Inl e, w\<lparr>cache := snd (get L t1 url (cache w))\<rparr>)"
  using assms by (cases "get L t1 url (cache w)") (simp add: fetch_json_def)

lemma fetch_bypass: "fetch_json L net t1 t2 wo url True w = network_leg L net t2 wo url w"
  by (simp add: fetch_json_def)

lemma sent_fetch:
  "sent (snd (fetch_json L net t1 t2 wo url force w))
   = (if force \<or> fst (get L t1 url (cache w)) = Inr JNull then sent w @ [url] else sent w)"
proof (cases force)
  case True
  then show ?thesis by (simp add: fetch_bypass sent_network_leg)
next
  case False
  show ?thesis
  proof (cases "fst (get L t1 url (cache w))")
    case (Inl e)
    with False show ?thesis by (simp add: fetch_raise)
  next
    case (Inr v)
    show ?thesis
    proof (cases "v = JNull")
      case True
      with Inr False show ?thesis by (simp add: fetch_miss sent_network_leg)
    next
      case False
      with Inr \<open>\<not> force\<close> show ?thesis by (simp add: fetch_hit)
    qed
  qed
qed

text \<open>
  Claim C5. \<^verbatim>\<open>fetch_json\<close> sends a request exactly when bypass is asked for or the
  lookup returns \<^verbatim>\<open>None\<close>. Without bypass, a lookup that returns a payload makes
  \<^verbatim>\<open>fetch_json\<close> return that payload at once, with no request sent and the world
  unchanged. With bypass the lookup is not made: one request is sent, and the value
  returned is the same for every cache state and every clock reading.
\<close>

theorem fetch_network_iff_miss_or_bypass:
  "(fst (get L t1 url (cache w)) = Inr v \<and> v \<noteq> JNull \<longrightarrow>
      fetch_json L net t1 t2 wo url False w = (Inr v, w))
   \<and> sent (snd (fetch_json L net t1 t2 wo url force w))
     = (if force \<or> fst (get L t1 url (cache w)) = Inr JNull then sent w @ [url] else sent w)
   \<and> fst (fetch_json L net t1 t2 wo url True w) = fst (fetch_json L net t1' t2' wo' url True w')
   \<and> sent (snd (fetch_json L net t1 t2 wo url True w)) = sent w @ [url]"
  using fetch_hit [of L t1 url w v net t2 wo] sent_fetch [of L net t1 t2 wo url force w]
  by (simp add: fetch_bypass fst_network_leg sent_network_leg)

theorem fetch_network_iff_miss_or_bypass_witness:
  "fst (get sample_lib (noon + 1) laps_url
          [(laps_key, \<lparr>body = Parsed (cache_record sample_lib noon laps_url laps_payload),
                       st_size = 173\<rparr>)]) = Inr laps_payload
   \<and> laps_payload \<noteq> JNull
   \<and> fetch_json sample_lib net_timeout (noon + 1) (noon + 1) Written laps_url False
        \<lparr>cache = [(laps_key, \<lparr>body = Parsed (cache_record sample_lib noon laps_url laps_payload),
                               st_size = 173\<rparr>)], sent = []\<rparr>
     = (Inr laps_payload,
        \<lparr>cache = [(laps_key, \<lparr>body = Parsed (cache_record sample_lib noon laps_url laps_payload),
                               st_size = 173\<rparr>)], sent = []\<rparr>)
   \<and> sent (snd (fetch_json sample_lib net_timeout (noon + 1) (noon + 1) Written laps_url True
        \<lparr>cache = [(laps_key, \<lparr>body = Parsed (cache_record sample_lib noon laps_url laps_payload),
                               st_size = 173\<rparr>)], sent = []\<rparr>)) = [laps_url]"
proof -
  let ?f = "\<lparr>body = Parsed (cache_record sample_lib noon laps_url laps_payload), st_size = 173\<rparr>"
  let ?w = "\<lparr>cache = [(laps_key, ?f)], sent = []\<rparr>"
  have g: "get sample_lib (noon + 1) laps_url [(laps_key, ?f)] = (Inr laps_payload, [(laps_key, ?f)])"
    by (simp add: get_def laps_key_eq get_try_record [OF sample_roundtrip] laps_category
          expiration_hours_laps)
  have p: "laps_payload \<noteq> JNull" by (simp add: laps_payload_def)
  show ?thesis
    using g p
      fetch_network_iff_miss_or_bypass [of sample_lib "noon + 1" laps_url ?w laps_payload
        net_timeout "noon + 1" Written True "noon + 1" "noon + 1" Written ?w]
    by simp
qed

subsection \<open>Write-through\<close>

lemma map_of_set_cache_all:
  "map_of (set_cache L T Written url data fs)
   = (map_of fs)(get_cache_key L url \<mapsto>
        \<lparr>body = Parsed (cache_record L T url data),
         st_size = dump_size L (cache_record L T url data)\<rparr>)"
  by (simp add: set_cache_def Let_def update_conv')

lemma set_after_get:
  "map_of (set_cache L T Written url data (snd (get L now url fs)))
   = (map_of fs)(get_cache_key L url \<mapsto>
        \<lparr>body = Parsed (cache_record L T url data),
         st_size = dump_size L (cache_record L T url data)\<rparr>)"
  by (simp add: set_cache_def Let_def get_then_update)

text \<open>
  Claim C6 says that after a miss and a successful network call returning \<open>P\<close>,
  \<^verbatim>\<open>fetch_json\<close> stores \<open>P\<close> and an immediate lookup returns \<open>P\<close>. The write of \<^verbatim>\<open>set\<close>
  is best effort (\<^verbatim>\<open>except Exception: pass\<close>): when \<^verbatim>\<open>open\<close> fails, \<^verbatim>\<open>fetch_json\<close> still
  returns \<open>P\<close>, nothing is stored, and the lookup that follows does not return \<open>P\<close>.
\<close>

theorem write_through_counterexample:
  "fst (fetch_json sample_lib net_ok noon noon OpenFailed laps_url False
          \<lparr>cache = [], sent = []\<rparr>) = Inr laps_payload
   \<and> fst (get sample_lib noon laps_url
            (cache (snd (fetch_json sample_lib net_ok noon noon OpenFailed laps_url False
                           \<lparr>cache = [], sent = []\<rparr>)))) \<noteq> Inr laps_payload"
  by (simp add: fetch_json_def get_def network_leg_def net_ok_def set_cache_def Let_def
        laps_payload_def)

lemma cache_fetch_success:
  assumes "force \<or> fst (get L t1 url (cache w)) = Inr JNull" "net url = Success P"
  shows "fetch_json L net t1 t2 wo url force w
         = (Inr P,
            \<lparr>cache = set_cache L t2 wo url P
                       (if force then cache w else snd (get L t1 url (cache w))),
             sent = sent w @ [url]\<rparr>)"
proof (cases force)
  case True
  then show ?thesis using assms(2) by (simp add: fetch_bypass network_leg_success)
next
  case False
  with assms(1) have miss: "fst (get L t1 url (cache w)) = Inr JNull" by simp
  show ?thesis using False assms(2) by (simp add: fetch_miss [OF miss] network_leg_success)
qed

lemma map_of_written:
  "map_of (set_cache L T Written url data (if force then fs else snd (get L now url fs)))
   = (map_of fs)(get_cache_key L url \<mapsto>
        \<lparr>body = Parsed (cache_record L T url data),
         st_size = dump_size L (cache_record L T url data)\<rparr>)"
proof (cases force)
  case True
  then show ?thesis by (simp add: map_of_set_cache_all)
next
  case False
  then show ?thesis by (simp add: set_after_get)
qed

text \<open>
  Claim C6, amended. Every fetch whose network call succeeds with \<open>P\<close>, after a
  miss or with bypass, returns \<open>P\<close> and has sent one request, whatever happens to the
  write. When the write succeeds, the cache differs from the one before the call in
  exactly the entry of the key, which is the record of \<open>P\<close> (an old entry is
  overwritten), and a lookup at any time before the expiry of that record returns \<open>P\<close>
  from the cache alone. When \<^verbatim>\<open>open\<close> fails, the failure is swallowed and nothing is
  stored. (\<^verbatim>\<open>fromisoformat\<close> is taken to read back what \<^verbatim>\<open>isoformat\<close> wrote.)
\<close>

theorem write_through:
  "((force \<or> fst (get L t1 url (cache w)) = Inr JNull) \<and> net url = Success P \<longrightarrow>
      fst (fetch_json L net t1 t2 wo url force w) = Inr P
      \<and> sent (snd (fetch_json L net t1 t2 wo url force w)) = sent w @ [url])
   \<and> ((force \<or> fst (get L t1 url (cache w)) = Inr JNull) \<and> net url = Success P \<longrightarrow>
      map_of (cache (snd (fetch_json L net t1 t2 Written url force w)))
      = (map_of (cache w))(get_cache_key L url \<mapsto>
           \<lparr>body = Parsed (cache_record L t2 url P),
            st_size = dump_size L (cache_record L t2 url P)\<rparr>))
   \<and> ((force \<or> fst (get L t1 url (cache w)) = Inr JNull) \<and> net url = Success P
        \<and> fromisoformat L (isoformat L t2) = Some (Naive t2)
        \<and> now < t2 + timedelta_hours (expiration_hours (get_endpoint_type url)) \<longrightarrow>
      get L now url (cache (snd (fetch_json L net t1 t2 Written url force w)))
      = (Inr P, cache (snd (fetch_json L net t1 t2 Written url force w))))
   \<and> ((force \<or> fst (get L t1 url (cache w)) = Inr JNull) \<and> net url = Success P \<longrightarrow>
      cache (snd (fetch_json L net t1 t2 OpenFailed url force w))
      = (if force then cache w else snd (get L t1 url (cache w))))"
proof -
  have eq: "fetch_json L net t1 t2 wo' url force w
            = (Inr P,
               \<lparr>cache = set_cache L t2 wo' url P
                          (if force then cache w else snd (get L t1 url (cache w))),
                sent = sent w @ [url]\<rparr>)"
    if "force \<or> fst (get L t1 url (cache w)) = Inr JNull" "net url = Success P" for wo'
    by (rule cache_fetch_success) (rule that)+
  {
    assume a: "force \<or> fst (get L t1 url (cache w)) = Inr JNull" and ok: "net url = Success P"
      and rt: "fromisoformat L (isoformat L t2) = Some (Naive t2)"
      and fresh: "now < t2 + timedelta_hours (expiration_hours (get_endpoint_type url))"
    have "get L now url (cache (snd (fetch_json L net t1 t2 Written url force w)))
          = (Inr P, cache (snd (fetch_json L net t1 t2 Written url force w)))"
      using get_after_set [OF rt, of now url P] fresh by (simp add: eq [OF a ok])
  }
  moreover
  {
    assume a: "force \<or> fst (get L t1 url (cache w)) = Inr JNull" and ok: "net url = Success P"
    have "fst (fetch_json L net t1 t2 wo url force w) = Inr P
          \<and> sent (snd (fetch_json L net t1 t2 wo url force w)) = sent w @ [url]"
      and "map_of (cache (snd (fetch_json L net t1 t2 Written url force w)))
           = (map_of (cache w))(get_cache_key L url \<mapsto>
               \<lparr>body = Parsed (cache_record L t2 url P),
                st_size = dump_size L (cache_record L t2 url P)\<rparr>)"
      and "cache (snd (fetch_json L net t1 t2 OpenFailed url force w))
           = (if force then cache w else snd (get L t1 url (cache w)))"
      by (simp_all add: eq [OF a ok] map_of_written) (simp add: set_cache_def)
  }
  ultimately show ?thesis by blast
qed

theorem write_through_witness:
  "fst (get sample_lib noon laps_url (cache \<lparr>cache = [], sent = []\<rparr>)) = Inr JNull
   \<and> net_ok laps_url = Success laps_payload
   \<and> fromisoformat sample_lib (isoformat sample_lib noon) = Some (Naive noon)
   \<and> noon + 5 < noon + timedelta_hours (expiration_hours (get_endpoint_type laps_url))
   \<and> fst (fetch_json sample_lib net_ok noon noon Written laps_url False
            \<lparr>cache = [], sent = []\<rparr>) = Inr laps_payload
   \<and> sent (snd (fetch_json sample_lib net_ok noon noon Written laps_url False
                  \<lparr>cache = [], sent = []\<rparr>)) = [laps_url]
   \<and> fst (get sample_lib (noon + 5) laps_url
            (cache (snd (fetch_json sample_lib net_ok noon noon Written laps_url False
                           \<lparr>cache = [], sent = []\<rparr>)))) = Inr laps_payload
   \<and> fst (fetch_json sample_lib net_ok noon noon Written laps_url True
            \<lparr>cache = [(laps_key, \<lparr>body = Parsed (cache_record sample_lib noon laps_url (JArr [])),
                                   st_size = 173\<rparr>)], sent = []\<rparr>) = Inr laps_payload
   \<and> map_of (cache (snd (fetch_json sample_lib net_ok noon noon Written laps_url True
            \<lparr>cache = [(laps_key, \<lparr>body = Parsed (cache_record sample_lib noon laps_url (JArr [])),
                                   st_size = 173\<rparr>)], sent = []\<rparr>))) laps_key
     = Some \<lparr>body = Parsed (cache_record sample_lib noon laps_url laps_payload), st_size = 173\<rparr>
   \<and> fst (get sample_lib (noon + 5) laps_url
            (cache (snd (fetch_json sample_lib net_ok noon noon Written laps_url True
               \<lparr>cache = [(laps_key,
                           \<lparr>body = Parsed (cache_record sample_lib noon laps_url (JArr [])),
                            st_size = 173\<rparr>)], sent = []\<rparr>)))) = Inr laps_payload"
proof -
  let ?e = "\<lparr>cache = [], sent = []\<rparr> :: world"
  let ?w = "\<lparr>cache = [(laps_key, \<lparr>body = Parsed (cache_record sample_lib noon laps_url (JArr [])),
                                  st_size = 173\<rparr>)], sent = []\<rparr>"
  have miss: "fst (get sample_lib noon laps_url (cache ?e)) = Inr JNull"
    by (simp add: get_def)
  have ok: "net_ok laps_url = Success laps_payload" by (simp add: net_ok_def)
  have fresh: "noon + 5 < noon + timedelta_hours (expiration_hours (get_endpoint_type laps_url))"
    by (simp add: laps_category expiration_hours_laps)
  have size: "dump_size sample_lib v = 173" for v by (simp add: sample_lib_def)
  show ?thesis
    using miss ok sample_roundtrip fresh
      write_through [of False sample_lib noon laps_url ?e net_ok laps_payload noon Written
        "noon + 5"]
      write_through [of True sample_lib noon laps_url ?w net_ok laps_payload noon Written
        "noon + 5"]
    by (simp add: laps_key_eq size)
qed

subsection \<open>Failure of the network leg\<close>

text \<open>
  Claim C7 says that a fetch whose network leg fails leaves every cache entry as it
  was. Without bypass the lookup runs first, and it deletes an entry of the key that
  is not JSON: the request then times out, \<^verbatim>\<open>fetch_json\<close> returns \<^verbatim>\<open>None\<close>, and the
  directory that held the corrupt entry is empty.
\<close>

theorem failure_counterexample:
  "fst (fetch_json sample_lib net_timeout noon noon Written laps_url False
          \<lparr>cache = [(laps_key, \<lparr>body = Malformed, st_size = 12\<rparr>)], sent = []\<rparr>) = Inr JNull
   \<and> sent (snd (fetch_json sample_lib net_timeout noon noon Written laps_url False
          \<lparr>cache = [(laps_key, \<lparr>body = Malformed, st_size = 12\<rparr>)], sent = []\<rparr>)) = [laps_url]
   \<and> cache (snd (fetch_json sample_lib net_timeout noon noon Written laps_url False
          \<lparr>cache = [(laps_key, \<lparr>body = Malformed, st_size = 12\<rparr>)], sent = []\<rparr>)) = []"
  by (simp add: fetch_json_def get_def get_try_def json_load_def laps_key_eq network_leg_def
        net_timeout_def Let_def AList.delete_eq)
    (simp add: sample_lib_def laps_key_def)

lemma cache_fetch_failed:
  assumes "failed (net url)"
  shows "cache (snd (fetch_json L net t1 t2 wo url force w))
         = (if force then cache w else snd (get L t1 url (cache w)))"
proof (cases force)
  case True
  then show ?thesis using assms by (simp add: fetch_bypass network_leg_failed)
next
  case False
  show ?thesis
  proof (cases "fst (get L t1 url (cache w))")
    case (Inl e)
    with False show ?thesis by (simp add: fetch_raise)
  next
    case (Inr v)
    show ?thesis
    proof (cases "v = JNull")
      case True
      with Inr False assms show ?thesis by (simp add: fetch_miss network_leg_failed)
    next
      case False
      with Inr \<open>\<not> force\<close> show ?thesis by (simp add: fetch_hit get_hit_dir)
    qed
  qed
qed

text \<open>
  Claim C7, amended. When the network leg fails, \<^verbatim>\<open>fetch_json\<close> returns \<^verbatim>\<open>None\<close> and
  the failure handling writes nothing: with bypass the cache is untouched; without
  bypass the cache is what the lookup left. No entry is created or changed (every
  entry found afterwards was there before, with the same content), the entries of all
  other keys are unaffected, and the cache is unchanged when the key has no entry or
  an entry that the lookup can read, a stale one included. The only difference a
  failed fetch can leave is the lookup's deletion of a corrupt entry of the same key.
\<close>

theorem failure_leaves_cache:
  "(failed (net url) \<longrightarrow>
      fetch_json L net t1 t2 wo url True w = (Inr JNull, w\<lparr>sent := sent w @ [url]\<rparr>))
   \<and> (failed (net url) \<and> fst (get L t1 url (cache w)) = Inr JNull \<longrightarrow>
        fetch_json L net t1 t2 wo url False w
        = (Inr JNull, w\<lparr>cache := snd (get L t1 url (cache w)), sent := sent w @ [url]\<rparr>))
   \<and> (failed (net url)
        \<and> map_of (cache (snd (fetch_json L net t1 t2 wo url force w))) k = Some f \<longrightarrow>
        map_of (cache w) k = Some f)
   \<and> (failed (net url) \<and> k \<noteq> get_cache_key L url \<longrightarrow>
        map_of (cache (snd (fetch_json L net t1 t2 wo url force w))) k = map_of (cache w) k)
   \<and> (failed (net url) \<and> map_of (cache w) (get_cache_key L url) = Some f
        \<and> get_try L t1 url f = Inr v \<longrightarrow>
        cache (snd (fetch_json L net t1 t2 wo url force w)) = cache w)
   \<and> (failed (net url) \<and> map_of (cache w) (get_cache_key L url) = None \<longrightarrow>
        cache (snd (fetch_json L net t1 t2 wo url force w)) = cache w)"
proof -
  {
    assume "failed (net url)"
    then have "fetch_json L net t1 t2 wo url True w = (Inr JNull, w\<lparr>sent := sent w @ [url]\<rparr>)"
      by (simp add: fetch_bypass network_leg_failed)
  }
  moreover
  {
    assume f: "failed (net url)" and miss: "fst (get L t1 url (cache w)) = Inr JNull"
    have "fetch_json L net t1 t2 wo url False w
          = (Inr JNull, w\<lparr>cache := snd (get L t1 url (cache w)), sent := sent w @ [url]\<rparr>)"
      using f by (simp add: fetch_miss [OF miss] network_leg_failed)
  }
  moreover
  {
    assume f: "failed (net url)"
      and m: "map_of (cache (snd (fetch_json L net t1 t2 wo url force w))) k = Some f"
    have "map_of (cache w) k = Some f"
      using m get_map_of [of L t1 url "cache w" k f]
      by (simp add: cache_fetch_failed [of net url, OF f] split: if_splits)
  }
  moreover
  {
    assume f: "failed (net url)" and k: "k \<noteq> get_cache_key L url"
    have "map_of (cache (snd (fetch_json L net t1 t2 wo url force w))) k = map_of (cache w) k"
      by (simp add: cache_fetch_failed [of net url, OF f] get_map_of_other [OF k])
  }
  moreover
  {
    assume f: "failed (net url)" and m: "map_of (cache w) (get_cache_key L url) = Some f"
      and r: "get_try L t1 url f = Inr v"
    have "cache (snd (fetch_json L net t1 t2 wo url force w)) = cache w"
      by (simp add: cache_fetch_failed [of net url, OF f] get_keeps_readable [OF m r])
  }
  moreover
  {
    assume f: "failed (net url)" and m: "map_of (cache w) (get_cache_key L url) = None"
    have "cache (snd (fetch_json L net t1 t2 wo url force w)) = cache w"
      using m by (simp add: cache_fetch_failed [of net url, OF f] get_def)
  }
  ultimately show ?thesis by blast
qed

theorem failure_leaves_cache_witness:
  "failed (net_timeout laps_url)
   \<and> fst (get sample_lib (noon + 7200000000) laps_url
        [(laps_key, \<lparr>body = Parsed (cache_record sample_lib noon laps_url laps_payload),
                     st_size = 173\<rparr>)]) = Inr JNull
   \<and> get_try sample_lib (noon + 7200000000) laps_url
        \<lparr>body = Parsed (cache_record sample_lib noon laps_url laps_payload), st_size = 173\<rparr>
      = Inr JNull
   \<and> fetch_json sample_lib net_timeout (noon + 7200000000) (noon + 7200000000) Written laps_url
        False
        \<lparr>cache = [(laps_key, \<lparr>body = Parsed (cache_record sample_lib noon laps_url laps_payload),
                               st_size = 173\<rparr>)], sent = []\<rparr>
     = (Inr JNull,
        \<lparr>cache = [(laps_key, \<lparr>body = Parsed (cache_record sample_lib noon laps_url laps_payload),
                               st_size = 173\<rparr>)], sent = [laps_url]\<rparr>)
   \<and> fetch_json sample_lib net_timeout (noon + 7200000000) (noon + 7200000000) Written laps_url
        True
        \<lparr>cache = [(laps_key, \<lparr>body = Parsed (cache_record sample_lib noon laps_url laps_payload),
                               st_size = 173\<rparr>)], sent = []\<rparr>
     = (Inr JNull,
        \<lparr>cache = [(laps_key, \<lparr>body = Parsed (cache_record sample_lib noon laps_url laps_payload),
                               st_size = 173\<rparr>)], sent = [laps_url]\<rparr>)
   \<and> map_of (cache \<lparr>cache = [], sent = []\<rparr>) (get_cache_key sample_lib laps_url) = None
   \<and> ''0'' \<noteq> get_cache_key sample_lib laps_url
   \<and> cache (snd (fetch_json sample_lib net_timeout noon noon Written laps_url False
                   \<lparr>cache = [], sent = []\<rparr>)) = []"
proof -
  let ?f = "\<lparr>body = Parsed (cache_record sample_lib noon laps_url laps_payload), st_size = 173\<rparr>"
  let ?w = "\<lparr>cache = [(laps_key, ?f)], sent = []\<rparr>"
  let ?e = "\<lparr>cache = [], sent = []\<rparr> :: world"
  have f: "failed (net_timeout laps_url)" by (simp add: failed_def net_timeout_def)
  have t: "get_try sample_lib (noon + 7200000000) laps_url ?f = Inr JNull"
    by (simp add: get_try_record [OF sample_roundtrip] laps_category expiration_hours_laps)
  have m: "map_of (cache ?w) (get_cache_key sample_lib laps_url) = Some ?f"
    by (simp add: laps_key_eq)
  have g: "fst (get sample_lib (noon + 7200000000) laps_url (cache ?w)) = Inr JNull"
    using get_keeps_readable [OF m t] by simp
  have s: "snd (get sample_lib (noon + 7200000000) laps_url (cache ?w)) = cache ?w"
    using get_keeps_readable [OF m t] by simp
  have n: "map_of (cache ?e) (get_cache_key sample_lib laps_url) = None" by simp
  have k: "''0'' \<noteq> get_cache_key sample_lib laps_url"
    by (simp add: laps_key_eq laps_key_def)
  show ?thesis
    using f t m g s n k
      failure_leaves_cache [of net_timeout laps_url sample_lib "noon + 7200000000"
        "noon + 7200000000" Written ?w False laps_key ?f JNull]
      failure_leaves_cache [of net_timeout laps_url sample_lib noon noon Written ?e False
        "''0''" ?f JNull]
    by simp
qed

subsection \<open>The stored category\<close>

text \<open>
  Claim C10. The record that \<^verbatim>\<open>set\<close> writes for \<open>url\<close> carries, in its field
  \<^verbatim>\<open>endpoint\<close>, the category that \<^verbatim>\<open>_get_endpoint_type\<close> derives from \<open>url\<close>: it is what
  \<^verbatim>\<open>clear\<close> reads (\<^verbatim>\<open>cache_data.get("endpoint")\<close>) and what \<^verbatim>\<open>stats\<close> reads
  (\<^verbatim>\<open>cache_data.get("endpoint", "unknown")\<close>), and the duration by which \<^verbatim>\<open>get\<close> on the
  same \<open>url\<close> decides freshness is the duration of that stored category.
\<close>

theorem stored_category_is_derived:
  "map_of (set_cache L T Written url data fs) (get_cache_key L url)
   = Some \<lparr>body = Parsed (cache_record L T url data),
           st_size = dump_size L (cache_record L T url data)\<rparr>
   \<and> subscript (cache_record L T url data) ''endpoint'' = Inr (JStr (get_endpoint_type url))
   \<and> dict_get (cache_record L T url data) ''endpoint'' JNull = Inr (JStr (get_endpoint_type url))
   \<and> dict_get (cache_record L T url data) ''endpoint'' (JStr ''unknown'')
     = Inr (JStr (get_endpoint_type url))
   \<and> (fromisoformat L (isoformat L T) = Some (Naive T)
        \<and> dict_get (cache_record L T url data) ''endpoint'' JNull = Inr (JStr c) \<longrightarrow>
      fst (get L now url (set_cache L T Written url data fs))
      = Inr (if now < T + timedelta_hours (expiration_hours c) then data else JNull))"
  using get_after_set [of L T now url data fs]
  by (auto simp: map_of_set_cache cache_record_def)

theorem stored_category_is_derived_witness:
  "fromisoformat sample_lib (isoformat sample_lib noon) = Some (Naive noon)
   \<and> dict_get (cache_record sample_lib noon laps_url laps_payload) ''endpoint'' JNull
     = Inr (JStr ''laps'')
   \<and> fst (get sample_lib (noon + 1) laps_url
            (set_cache sample_lib noon Written laps_url laps_payload []))
     = Inr laps_payload"
  using sample_roundtrip
    stored_category_is_derived [of sample_lib noon laps_url laps_payload "[]" "''laps''"
      "noon + 1"]
  by (simp add: laps_category expiration_hours_laps)

subsection \<open>clear\<close>

lemma clear_step_eq:
  "clear_step L endpoint (n, d) (name, f)
   = (if refused L endpoint (name, f) then Inl OSError
      else Inr (if category_matches endpoint f then n + 1 else n,
                if category_matches endpoint f \<or> scan_fails endpoint f
                then AList.delete name d else d))"
  by (auto simp: clear_step_def refused_def category_matches_def scan_fails_def Let_def
      split: sum.splits option.splits)

lemma doomed_names_Cons:
  "fst ` {x \<in> set ((name, f) # xs). P (snd x)}
   = (if P f then insert name (fst ` {x \<in> set xs. P (snd x)}) else fst ` {x \<in> set xs. P (snd x)})"
  by (auto simp: image_iff)

lemma filter_delete:
  "filter (\<lambda>e. fst e \<notin> S) (AList.delete name d) = filter (\<lambda>e. fst e \<notin> insert name S) d"
  by (induction d) (auto simp: AList.delete_eq)

lemma clear_loop_eq:
  "clear_loop L endpoint (n, d) xs
   = (if \<exists>e \<in> set xs. refused L endpoint e then Inl OSError
      else Inr (n + length (filter (\<lambda>e. category_matches endpoint (snd e)) xs)),
      filter (\<lambda>e. fst e \<notin> fst ` {x \<in> set (takeWhile (\<lambda>e. \<not> refused L endpoint e) xs).
                                  category_matches endpoint (snd x)
                                  \<or> scan_fails endpoint (snd x)}) d)"
proof (induction xs arbitrary: n d)
  case Nil
  then show ?case by simp
next
  case (Cons x xs)
  obtain name f where x: "x = (name, f)" by (cases x)
  show ?case
  proof (cases "refused L endpoint (name, f)")
    case True
    then show ?thesis by (simp add: x clear_step_eq)
  next
    case False
    then have tw: "takeWhile (\<lambda>e. \<not> refused L endpoint e) ((name, f) # xs)
                   = (name, f) # takeWhile (\<lambda>e. \<not> refused L endpoint e) xs"
      by simp
    from False show ?thesis
      unfolding x clear_loop.simps clear_step_eq tw
        doomed_names_Cons [of name f "takeWhile (\<lambda>e. \<not> refused L endpoint e) xs"
          "\<lambda>g. category_matches endpoint g \<or> scan_fails endpoint g"]
      by (simp add: Cons.IH filter_delete)
  qed
qed

lemma distinct_keys_same:
  "distinct (map fst fs) \<Longrightarrow> (k, f) \<in> set fs \<Longrightarrow> (k, f') \<in> set fs \<Longrightarrow> f = f'"
  by (meson eq_key_imp_eq_value)

lemma clear_eq:
  assumes "distinct (map fst fs)"
  shows "clear L endpoint fs
         = (if \<exists>e \<in> set fs. refused L endpoint e then Inl OSError
            else Inr (length (filter (\<lambda>e. category_matches endpoint (snd e)) fs)),
            filter (\<lambda>e. \<not> ((category_matches endpoint (snd e) \<or> scan_fails endpoint (snd e))
                          \<and> e \<in> set (takeWhile (\<lambda>e. \<not> refused L endpoint e) fs))) fs)"
proof -
  let ?pre = "takeWhile (\<lambda>e. \<not> refused L endpoint e) fs"
  have "filter (\<lambda>e. fst e \<notin> fst ` {x \<in> set ?pre. category_matches endpoint (snd x)
                                        \<or> scan_fails endpoint (snd x)}) fs
        = filter (\<lambda>e. \<not> ((category_matches endpoint (snd e) \<or> scan_fails endpoint (snd e))
                          \<and> e \<in> set ?pre)) fs"
  proof (rule filter_cong [OF refl])
    fix e assume e: "e \<in> set fs"
    obtain k f where kf: "e = (k, f)" by (cases e)
    have sub: "y \<in> set fs" if "y \<in> set ?pre" for y
      using that by (rule set_takeWhileD [THEN conjunct1])
    show "(fst e \<notin> fst ` {x \<in> set ?pre. category_matches endpoint (snd x)
                                        \<or> scan_fails endpoint (snd x)})
          = (\<not> ((category_matches endpoint (snd e) \<or> scan_fails endpoint (snd e))
                \<and> e \<in> set ?pre))"
    proof
      assume l: "fst e \<notin> fst ` {x \<in> set ?pre. category_matches endpoint (snd x)
                                        \<or> scan_fails endpoint (snd x)}"
      show "\<not> ((category_matches endpoint (snd e) \<or> scan_fails endpoint (snd e))
                \<and> e \<in> set ?pre)"
      proof
        assume "(category_matches endpoint (snd e) \<or> scan_fails endpoint (snd e))
                \<and> e \<in> set ?pre"
        then have "e \<in> {x \<in> set ?pre. category_matches endpoint (snd x)
                                        \<or> scan_fails endpoint (snd x)}" by simp
        then have "fst e \<in> fst ` {x \<in> set ?pre. category_matches endpoint (snd x)
                                        \<or> scan_fails endpoint (snd x)}" by (rule imageI)
        with l show False by contradiction
      qed
    next
      assume r: "\<not> ((category_matches endpoint (snd e) \<or> scan_fails endpoint (snd e))
                \<and> e \<in> set ?pre)"
      show "fst e \<notin> fst ` {x \<in> set ?pre. category_matches endpoint (snd x)
                                        \<or> scan_fails endpoint (snd x)}"
      proof
        assume "fst e \<in> fst ` {x \<in> set ?pre. category_matches endpoint (snd x)
                                        \<or> scan_fails endpoint (snd x)}"
        then obtain y where y: "y \<in> set ?pre"
            "category_matches endpoint (snd y) \<or> scan_fails endpoint (snd y)" "fst y = fst e"
          by auto
        obtain k' f' where kf': "y = (k', f')" by (cases y)
        from y(3) kf kf' have "k' = k" by simp
        with distinct_keys_same [OF assms, of k f' f] sub [OF y(1)] e kf kf'
        have "y = e" by simp
        with y r show False by simp
      qed
    qed
  qed
  then show ?thesis by (simp add: clear_def clear_loop_eq)
qed

lemma clear_all_selected:
  "category_matches None f \<or> scan_fails None f"
  by (simp add: category_matches_def scan_fails_def split: sum.splits)

lemma category_matches_None: "category_matches None f = parses f"
  by (simp add: category_matches_def parses_def split: sum.splits)

lemma takeWhile_all: "\<forall>e \<in> set fs. P e \<Longrightarrow> takeWhile P fs = fs"
  by (induction fs) auto

lemma clear_no_refusal:
  assumes "distinct (map fst fs)" "\<forall>e \<in> set fs. \<not> refused L endpoint e"
  shows "clear L endpoint fs
         = (Inr (length (filter (\<lambda>e. category_matches endpoint (snd e)) fs)),
            filter (\<lambda>e. \<not> category_matches endpoint (snd e) \<and> \<not> scan_fails endpoint (snd e)) fs)"
proof -
  have "filter (\<lambda>e. \<not> ((category_matches endpoint (snd e) \<or> scan_fails endpoint (snd e))
                          \<and> e \<in> set fs)) fs
        = filter (\<lambda>e. \<not> category_matches endpoint (snd e) \<and> \<not> scan_fails endpoint (snd e)) fs"
    by (rule filter_cong) auto
  then show ?thesis
    using assms(2) by (simp add: clear_eq [OF assms(1)] takeWhile_all [OF assms(2)])
qed

text \<open>
  Claim C3 says that \<^verbatim>\<open>clear\<close> without an argument deletes all entries and returns
  the number of entries deleted, and that entries that fail to parse are deleted
  unconditionally. The counter is incremented in the \<^verbatim>\<open>try\<close> only: on a directory
  with one file that is not JSON, \<^verbatim>\<open>clear()\<close> deletes the file and reports 0, not 1.
  And the unlink of the handler is not guarded: on a directory that holds
  \<^verbatim>\<open>locked.json\<close>, itself a directory, \<^verbatim>\<open>clear()\<close> raises \<^verbatim>\<open>OSError\<close>, deletes nothing
  and reports nothing.
\<close>

theorem clear_counterexample:
  "clear sample_lib None [(laps_key, \<lparr>body = Malformed, st_size = 12\<rparr>)] = (Inr 0, [])
   \<and> fst (clear sample_lib None [(laps_key, \<lparr>body = Malformed, st_size = 12\<rparr>)])
     \<noteq> Inr (length [(laps_key, \<lparr>body = Malformed, st_size = 12\<rparr>)]
            - length (snd (clear sample_lib None [(laps_key, \<lparr>body = Malformed, st_size = 12\<rparr>)])))
   \<and> clear sample_lib None [(''locked'', \<lparr>body = Unreadable, st_size = 4096\<rparr>)]
     = (Inl OSError, [(''locked'', \<lparr>body = Unreadable, st_size = 4096\<rparr>)])"
  by (simp add: clear_def clear_step_def json_load_def AList.delete_eq sample_lib_def
        laps_key_def)

text \<open>
  Claim C3, amended. On a directory (file names are distinct) in which no unlink is
  refused, \<^verbatim>\<open>clear\<close> with a category deletes the entries whose stored category is
  the argument, and \<^verbatim>\<open>clear\<close> without an argument deletes all entries; in both cases
  the entries on which the scan fails (the file does not load as JSON, or, with a
  category given, the JSON is not an object) are deleted too, and all other entries
  are kept, in their order. The count reported (printed in the message; the method
  returns \<^verbatim>\<open>None\<close>) is the number of selected entries that parsed: the matching
  entries, or, without an argument, the parseable entries. Entries deleted because
  the scan failed are not counted. When the unlink of an entry that is to go is
  refused, \<^verbatim>\<open>clear\<close> raises \<^verbatim>\<open>OSError\<close> at the first such entry and reports nothing:
  the entries to go before it are deleted, it and everything after it stay.
\<close>

theorem clear_semantics:
  "(distinct (map fst fs) \<longrightarrow>
      fst (clear L endpoint fs)
      = (if \<exists>e \<in> set fs. refused L endpoint e then Inl OSError
         else Inr (length (filter (\<lambda>e. category_matches endpoint (snd e)) fs)))
      \<and> snd (clear L endpoint fs)
        = filter (\<lambda>e. \<not> ((category_matches endpoint (snd e) \<or> scan_fails endpoint (snd e))
                         \<and> e \<in> set (takeWhile (\<lambda>e. \<not> refused L endpoint e) fs))) fs)
   \<and> (distinct (map fst fs) \<and> (\<forall>e \<in> set fs. \<not> refused L endpoint e) \<longrightarrow>
        clear L endpoint fs
        = (Inr (length (filter (\<lambda>e. category_matches endpoint (snd e)) fs)),
           filter (\<lambda>e. \<not> category_matches endpoint (snd e) \<and> \<not> scan_fails endpoint (snd e)) fs))
   \<and> (distinct (map fst fs) \<and> (\<forall>e \<in> set fs. unlink L (fst e)) \<longrightarrow>
        clear L None fs = (Inr (length (filter (\<lambda>e. parses (snd e)) fs)), []))"
proof (intro conjI impI)
  assume d: "distinct (map fst fs)"
  show "fst (clear L endpoint fs)
      = (if \<exists>e \<in> set fs. refused L endpoint e then Inl OSError
         else Inr (length (filter (\<lambda>e. category_matches endpoint (snd e)) fs)))"
    by (simp add: clear_eq [OF d])
  show "snd (clear L endpoint fs)
        = filter (\<lambda>e. \<not> ((category_matches endpoint (snd e) \<or> scan_fails endpoint (snd e))
                         \<and> e \<in> set (takeWhile (\<lambda>e. \<not> refused L endpoint e) fs))) fs"
    by (simp add: clear_eq [OF d])
next
  assume "distinct (map fst fs) \<and> (\<forall>e \<in> set fs. \<not> refused L endpoint e)"
  then show "clear L endpoint fs
        = (Inr (length (filter (\<lambda>e. category_matches endpoint (snd e)) fs)),
           filter (\<lambda>e. \<not> category_matches endpoint (snd e) \<and> \<not> scan_fails endpoint (snd e)) fs)"
    using clear_no_refusal by blast
next
  assume a: "distinct (map fst fs) \<and> (\<forall>e \<in> set fs. unlink L (fst e))"
  then have "\<forall>e \<in> set fs. \<not> refused L None e" by (simp add: refused_def)
  with a have "clear L None fs
        = (Inr (length (filter (\<lambda>e. category_matches None (snd e)) fs)),
           filter (\<lambda>e. \<not> category_matches None (snd e) \<and> \<not> scan_fails None (snd e)) fs)"
    using clear_no_refusal by blast
  moreover have "filter (\<lambda>e. \<not> category_matches None (snd e) \<and> \<not> scan_fails None (snd e)) fs = []"
    using clear_all_selected by (auto simp: filter_empty_conv)
  ultimately show "clear L None fs = (Inr (length (filter (\<lambda>e. parses (snd e)) fs)), [])"
    by (simp add: category_matches_None)
qed

lemma sessions_category: "get_endpoint_type sessions_url = ''sessions''"
  by (simp add: get_endpoint_type_def sessions_url_def)

lemma sample_dir_distinct: "distinct (map fst sample_dir)"
  by (simp add: sample_dir_def laps_key_def sessions_key_def)

lemma locked_dir_distinct: "distinct (map fst locked_dir)"
  by (simp add: locked_dir_def laps_key_def sessions_key_def)

lemma sample_unlink:
  "unlink sample_lib laps_key" "unlink sample_lib sessions_key" "unlink sample_lib ''broken''"
  "\<not> unlink sample_lib ''locked''"
  by (simp_all add: sample_lib_def laps_key_def sessions_key_def)

lemma sample_names:
  "laps_key \<noteq> ''locked''" "''locked'' \<noteq> laps_key"
  "sessions_key \<noteq> ''locked''" "''locked'' \<noteq> sessions_key"
  "laps_key \<noteq> sessions_key" "sessions_key \<noteq> laps_key"
  by (simp_all add: laps_key_def sessions_key_def)

theorem clear_semantics_witness:
  "distinct (map fst sample_dir)
   \<and> map (refused sample_lib (Some ''laps'')) sample_dir = [False, False, False]
   \<and> map (\<lambda>e. unlink sample_lib (fst e)) sample_dir = [True, True, True]
   \<and> fst (clear sample_lib (Some ''laps'') sample_dir) = Inr 1
   \<and> map fst (snd (clear sample_lib (Some ''laps'') sample_dir)) = [sessions_key]
   \<and> clear sample_lib None sample_dir = (Inr 2, [])
   \<and> distinct (map fst locked_dir)
   \<and> map (refused sample_lib None) locked_dir = [False, True, False]
   \<and> fst (clear sample_lib None locked_dir) = Inl OSError
   \<and> map fst (snd (clear sample_lib None locked_dir)) = [''locked'', sessions_key]"
proof -
  have r1: "map (refused sample_lib (Some ''laps'')) sample_dir = [False, False, False]"
    by (simp add: sample_dir_def refused_def sample_unlink)
  have u: "map (\<lambda>e. unlink sample_lib (fst e)) sample_dir = [True, True, True]"
    by (simp add: sample_dir_def sample_unlink)
  have r2: "map (refused sample_lib None) locked_dir = [False, True, False]"
    by (simp add: locked_dir_def refused_def sample_unlink category_matches_def scan_fails_def
          json_load_def)
  have n1: "\<forall>e \<in> set sample_dir. \<not> refused sample_lib (Some ''laps'') e"
    by (simp add: sample_dir_def refused_def sample_unlink)
  have n2: "\<forall>e \<in> set sample_dir. unlink sample_lib (fst e)"
    by (simp add: sample_dir_def sample_unlink)
  have a: "fst (clear sample_lib (Some ''laps'') sample_dir) = Inr 1
        \<and> map fst (snd (clear sample_lib (Some ''laps'') sample_dir)) = [sessions_key]"
    using sample_dir_distinct n1
      clear_semantics [of sample_dir sample_lib "Some ''laps''", THEN conjunct2, THEN conjunct1]
    by (simp add: sample_dir_def category_matches_def scan_fails_def json_load_def
          cache_record_def laps_category sessions_category)
  have b: "clear sample_lib None sample_dir = (Inr 2, [])"
    using sample_dir_distinct n2
      clear_semantics [of sample_dir sample_lib None, THEN conjunct2, THEN conjunct2]
    by (simp add: sample_dir_def parses_def json_load_def)
  have c: "fst (clear sample_lib None locked_dir) = Inl OSError
        \<and> map fst (snd (clear sample_lib None locked_dir)) = [''locked'', sessions_key]"
    using locked_dir_distinct
      clear_semantics [of locked_dir sample_lib None, THEN conjunct1]
    by (simp add: locked_dir_def refused_def sample_unlink category_matches_def scan_fails_def
          json_load_def sample_names)
  show ?thesis
    using sample_dir_distinct locked_dir_distinct r1 u r2 a b c by simp
qed

subsection \<open>stats\<close>

lemma stats_step_skip: "\<not> parses f \<Longrightarrow> stats_step L s f = s"
  by (simp add: stats_step_def parses_def split: sum.splits)

lemma total_step: "total (stats_step L s f) = total s + (if parses f then 1 else 0)"
  by (simp add: stats_step_def parses_def Let_def split: sum.splits)

lemma total_size_step:
  "total_size (stats_step L s f) = total_size s + (if parses f then st_size f else 0)"
  by (simp add: stats_step_def parses_def Let_def split: sum.splits)

lemma by_endpoint_step:
  "by_endpoint (stats_step L s f)
   = (case counted_category f of
        None \<Rightarrow> by_endpoint s
      | Some k \<Rightarrow> (by_endpoint s)(k \<mapsto> (case by_endpoint s k of None \<Rightarrow> 0 | Some n \<Rightarrow> n) + 1))"
  by (simp add: stats_step_def counted_category_def Let_def split: sum.splits)

lemma times_of_step:
  "oldest (stats_step L s f)
   = (case counted_time L f of
        None \<Rightarrow> oldest s
      | Some t \<Rightarrow>
          (case is_older t (oldest s) of
             Inl e \<Rightarrow> oldest s
           | Inr lt \<Rightarrow> if lt then Some t else oldest s))"
  "newest (stats_step L s f)
   = (case counted_time L f of
        None \<Rightarrow> newest s
      | Some t \<Rightarrow>
          (case is_older t (oldest s) of
             Inl e \<Rightarrow> newest s
           | Inr lt \<Rightarrow>
               (case is_newer t (newest s) of
                  Inl e \<Rightarrow> newest s
                | Inr gt \<Rightarrow> if gt then Some t else newest s)))"
  by (auto simp: stats_step_def counted_time_def counted_category_def Let_def
      split: sum.splits)

lemma times_step:
  assumes "oldest s = map_option (stamp K) a" "newest s = map_option (stamp K) b"
    "(a = None) = (b = None)"
    "a = None \<Longrightarrow> (case counted_time L f of None \<Rightarrow> True | Some t \<Rightarrow> aware t = K)"
  shows "oldest (stats_step L s f)
         = map_option (stamp K) (case kin_time K L f of None \<Rightarrow> a | Some v \<Rightarrow> keep_min a v)
         \<and> newest (stats_step L s f)
           = map_option (stamp K) (case kin_time K L f of None \<Rightarrow> b | Some v \<Rightarrow> keep_max b v)"
proof (cases "counted_time L f")
  case None
  then show ?thesis using assms(1,2) by (simp add: times_of_step kin_time_def)
next
  case (Some t)
  show ?thesis
  proof (cases a)
    case None
    with assms(3) have b: "b = None" by simp
    from assms(4) None Some have "aware t = K" by simp
    then have "stamp K (micros t) = t" by (cases t) (simp_all add: stamp_def)
    then show ?thesis
      using None b Some assms(1,2) \<open>aware t = K\<close>
      by (simp add: times_of_step kin_time_def is_older_def is_newer_def keep_min_def
            keep_max_def)
  next
    case (Some x)
    with assms(3) obtain y where b: "b = Some y" by (cases b) auto
    show ?thesis
      using Some b \<open>counted_time L f = Some t\<close> assms(1,2)
      by (cases t; cases K)
        (simp_all add: times_of_step kin_time_def is_older_def is_newer_def keep_min_def
          keep_max_def stamp_def min_def max_def)
  qed
qed

lemma foldl_stats_skip:
  "foldl (stats_step L) s fl = foldl (stats_step L) s (filter parses fl)"
  by (induction fl arbitrary: s) (simp_all add: stats_step_skip)

lemma total_foldl:
  "total (foldl (stats_step L) s fl) = total s + length (filter parses fl)"
  by (induction fl arbitrary: s) (simp_all add: total_step)

lemma total_size_foldl:
  "total_size (foldl (stats_step L) s fl)
   = total_size s + sum_list (map st_size (filter parses fl))"
  by (induction fl arbitrary: s) (simp_all add: total_size_step)

lemma by_endpoint_foldl:
  "by_endpoint (foldl (stats_step L) s fl) k
   = (if filter (\<lambda>f. counted_category f = Some k) fl = [] then by_endpoint s k
      else Some ((case by_endpoint s k of None \<Rightarrow> 0 | Some n \<Rightarrow> n)
                 + length (filter (\<lambda>f. counted_category f = Some k) fl)))"
proof (induction fl arbitrary: s)
  case Nil
  then show ?case by simp
next
  case (Cons f fl)
  show ?case
    by (simp add: Cons.IH by_endpoint_step split: option.splits)
qed

lemma kin_time_counted:
  "kin_time K L f = Some v \<Longrightarrow> counted_time L f \<noteq> None"
  by (auto simp: kin_time_def split: option.splits)

lemma times_foldl:
  assumes "oldest s = map_option (stamp K) a" "newest s = map_option (stamp K) b"
    "(a = None) = (b = None)"
    "a = None \<Longrightarrow>
       (case List.map_filter (counted_time L) fl of [] \<Rightarrow> True | t # ts \<Rightarrow> aware t = K)"
  shows "oldest (foldl (stats_step L) s fl)
         = map_option (stamp K) (foldl keep_min a (List.map_filter (kin_time K L) fl))
         \<and> newest (foldl (stats_step L) s fl)
           = map_option (stamp K) (foldl keep_max b (List.map_filter (kin_time K L) fl))"
  using assms
proof (induction fl arbitrary: s a b)
  case Nil
  then show ?case by (simp add: List.map_filter_simps)
next
  case (Cons f fl)
  let ?a = "case kin_time K L f of None \<Rightarrow> a | Some v \<Rightarrow> keep_min a v"
  let ?b = "case kin_time K L f of None \<Rightarrow> b | Some v \<Rightarrow> keep_max b v"
  have first: "case counted_time L f of None \<Rightarrow> True | Some t \<Rightarrow> aware t = K" if "a = None"
    using Cons.prems(4) [OF that] by (simp add: List.map_filter_simps split: option.splits)
  have step: "oldest (stats_step L s f) = map_option (stamp K) ?a
              \<and> newest (stats_step L s f) = map_option (stamp K) ?b"
    by (rule times_step [OF Cons.prems(1,2,3) first])
  have both: "(?a = None) = (?b = None)"
    using Cons.prems(3) by (simp add: keep_min_def keep_max_def split: option.splits)
  have rest: "case List.map_filter (counted_time L) fl of [] \<Rightarrow> True | t # ts \<Rightarrow> aware t = K"
    if "?a = None"
  proof -
    from that have a: "a = None" and k: "kin_time K L f = None"
      by (simp_all add: keep_min_def split: option.splits)
    have "counted_time L f = None"
    proof (cases "counted_time L f")
      case None
      then show ?thesis .
    next
      case (Some t)
      with first [OF a] have "aware t = K" by simp
      with Some k show ?thesis by (simp add: kin_time_def)
    qed
    with Cons.prems(4) [OF a] show ?thesis by (simp add: List.map_filter_simps)
  qed
  show ?case
    using Cons.IH [OF step [THEN conjunct1] step [THEN conjunct2] both rest]
    by (simp add: List.map_filter_simps split: option.splits)
qed

lemma Min_insert_min:
  "finite S \<Longrightarrow> S \<noteq> {} \<Longrightarrow> Min (insert (min t b) S) = Min (insert b (insert t S))"
  by (simp add: min.assoc min.left_commute min.commute)

lemma Max_insert_max:
  "finite S \<Longrightarrow> S \<noteq> {} \<Longrightarrow> Max (insert (max t b) S) = Max (insert b (insert t S))"
  by (simp add: max.assoc max.left_commute max.commute)

lemma foldl_keep_min:
  "foldl keep_min a ts
   = (if ts = [] then a else Some (Min (set ts \<union> set_option a)))"
proof (induction ts arbitrary: a)
  case Nil
  then show ?case by simp
next
  case (Cons t ts)
  show ?case
  proof (cases ts)
    case Nil
    then show ?thesis by (cases a) (simp_all add: keep_min_def)
  next
    case (Cons u us)
    then have ne: "set ts \<noteq> {}" by simp
    from Cons have "foldl keep_min a (t # ts) = Some (Min (set ts \<union> set_option (keep_min a t)))"
      using Cons.IH [of "keep_min a t"] by simp
    also have "Min (set ts \<union> set_option (keep_min a t)) = Min (set (t # ts) \<union> set_option a)"
    proof (cases a)
      case None
      then show ?thesis by (simp add: keep_min_def insert_commute)
    next
      case (Some b)
      have 1: "set ts \<union> set_option (keep_min a t) = insert (min t b) (set ts)"
        using Some by (simp add: keep_min_def)
      have 2: "set (t # ts) \<union> set_option a = insert b (insert t (set ts))"
        using Some by auto
      show ?thesis
        unfolding 1 2 by (rule Min_insert_min [OF _ ne]) simp
    qed
    finally show ?thesis by simp
  qed
qed

lemma foldl_keep_max:
  "foldl keep_max a ts
   = (if ts = [] then a else Some (Max (set ts \<union> set_option a)))"
proof (induction ts arbitrary: a)
  case Nil
  then show ?case by simp
next
  case (Cons t ts)
  show ?case
  proof (cases ts)
    case Nil
    then show ?thesis by (cases a) (simp_all add: keep_max_def)
  next
    case (Cons u us)
    then have ne: "set ts \<noteq> {}" by simp
    from Cons have "foldl keep_max a (t # ts) = Some (Max (set ts \<union> set_option (keep_max a t)))"
      using Cons.IH [of "keep_max a t"] by simp
    also have "Max (set ts \<union> set_option (keep_max a t)) = Max (set (t # ts) \<union> set_option a)"
    proof (cases a)
      case None
      then show ?thesis by (simp add: keep_max_def insert_commute)
    next
      case (Some b)
      have 1: "set ts \<union> set_option (keep_max a t) = insert (max t b) (set ts)"
        using Some by (simp add: keep_max_def)
      have 2: "set (t # ts) \<union> set_option a = insert b (insert t (set ts))"
        using Some by auto
      show ?thesis
        unfolding 1 2 by (rule Max_insert_max [OF _ ne]) simp
    qed
    finally show ?thesis by simp
  qed
qed

lemma map_filter_map_snd:
  "List.map_filter g (map snd fs) = List.map_filter (\<lambda>e. g (snd e)) fs"
  by (simp add: List.map_filter_def filter_map comp_def)

lemma kin_of_no_times:
  "List.map_filter (counted_time L) fl = [] \<Longrightarrow> List.map_filter (kin_time K L) fl = []"
  by (induction fl) (auto simp: List.map_filter_simps kin_time_def split: option.splits)

lemma kin_of_first_time:
  "List.map_filter (counted_time L) fl = t # ts
   \<Longrightarrow> List.map_filter (kin_time (aware t) L) fl \<noteq> []"
proof (induction fl)
  case Nil
  then show ?case by (simp add: List.map_filter_simps)
next
  case (Cons f fl)
  show ?case
  proof (cases "counted_time L f")
    case None
    with Cons.prems have "List.map_filter (counted_time L) fl = t # ts"
      by (simp add: List.map_filter_simps)
    from Cons.IH [OF this] None show ?thesis
      by (simp add: List.map_filter_simps kin_time_def)
  next
    case (Some u)
    with Cons.prems have "u = t" by (simp add: List.map_filter_simps)
    with Some show ?thesis by (simp add: List.map_filter_simps kin_time_def)
  qed
qed

lemma stats_fields:
  "total (fst (stats L fs)) = length (filter (\<lambda>e. parses (snd e)) fs)"
  "total_size (fst (stats L fs))
   = sum_list (map (\<lambda>e. st_size (snd e)) (filter (\<lambda>e. parses (snd e)) fs))"
  "by_endpoint (fst (stats L fs)) k
   = (if filter (\<lambda>e. counted_category (snd e) = Some k) fs = [] then None
      else Some (length (filter (\<lambda>e. counted_category (snd e) = Some k) fs)))"
  by (simp_all add: stats_def stats_init_def total_foldl total_size_foldl by_endpoint_foldl
      filter_map comp_def)

lemma stats_skips:
  "fst (stats L fs) = fst (stats L (filter (\<lambda>e. parses (snd e)) fs))"
  using foldl_stats_skip [of L stats_init "map snd fs"]
  by (simp add: stats_def filter_map comp_def)

lemma stats_times:
  "oldest (fst (stats L fs))
   = (case List.map_filter (\<lambda>e. counted_time L (snd e)) fs of
        [] \<Rightarrow> None
      | t # ts \<Rightarrow>
          Some (stamp (aware t)
                 (Min (set (List.map_filter (\<lambda>e. kin_time (aware t) L (snd e)) fs)))))"
  "newest (fst (stats L fs))
   = (case List.map_filter (\<lambda>e. counted_time L (snd e)) fs of
        [] \<Rightarrow> None
      | t # ts \<Rightarrow>
          Some (stamp (aware t)
                 (Max (set (List.map_filter (\<lambda>e. kin_time (aware t) L (snd e)) fs)))))"
proof -
  let ?fl = "map snd fs"
  have o: "oldest stats_init = map_option (stamp K) None"
    and n: "newest stats_init = map_option (stamp K) None" for K
    by (simp_all add: stats_init_def)
  show "oldest (fst (stats L fs))
   = (case List.map_filter (\<lambda>e. counted_time L (snd e)) fs of
        [] \<Rightarrow> None
      | t # ts \<Rightarrow>
          Some (stamp (aware t)
                 (Min (set (List.map_filter (\<lambda>e. kin_time (aware t) L (snd e)) fs)))))"
  proof (cases "List.map_filter (counted_time L) ?fl")
    case Nil
    have "oldest (foldl (stats_step L) stats_init ?fl)
          = map_option (stamp False) (foldl keep_min None (List.map_filter (kin_time False L) ?fl))"
      by (rule times_foldl [OF o n, THEN conjunct1]) (simp_all add: Nil)
    then show ?thesis
      using Nil kin_of_no_times [OF Nil, of False]
      by (simp add: stats_def map_filter_map_snd)
  next
    case (Cons t ts)
    have "oldest (foldl (stats_step L) stats_init ?fl)
          = map_option (stamp (aware t))
              (foldl keep_min None (List.map_filter (kin_time (aware t) L) ?fl))"
      by (rule times_foldl [OF o n, THEN conjunct1]) (simp_all add: Cons)
    then show ?thesis
      using Cons kin_of_first_time [OF Cons]
      by (simp add: stats_def map_filter_map_snd foldl_keep_min)
  qed
  show "newest (fst (stats L fs))
   = (case List.map_filter (\<lambda>e. counted_time L (snd e)) fs of
        [] \<Rightarrow> None
      | t # ts \<Rightarrow>
          Some (stamp (aware t)
                 (Max (set (List.map_filter (\<lambda>e. kin_time (aware t) L (snd e)) fs)))))"
  proof (cases "List.map_filter (counted_time L) ?fl")
    case Nil
    have "newest (foldl (stats_step L) stats_init ?fl)
          = map_option (stamp False) (foldl keep_max None (List.map_filter (kin_time False L) ?fl))"
      by (rule times_foldl [OF o n, THEN conjunct2]) (simp_all add: Nil)
    then show ?thesis
      using Nil kin_of_no_times [OF Nil, of False]
      by (simp add: stats_def map_filter_map_snd)
  next
    case (Cons t ts)
    have "newest (foldl (stats_step L) stats_init ?fl)
          = map_option (stamp (aware t))
              (foldl keep_max None (List.map_filter (kin_time (aware t) L) ?fl))"
      by (rule times_foldl [OF o n, THEN conjunct2]) (simp_all add: Cons)
    then show ?thesis
      using Cons kin_of_first_time [OF Cons]
      by (simp add: stats_def map_filter_map_snd foldl_keep_max)
  qed
qed

text \<open>
  Claim C8 says that entries that fail to parse during the scan are counted in no
  statistic. That holds for the files that \<^verbatim>\<open>json.load\<close> rejects, but the counters are
  updated before the rest of the record is read: a record without \<^verbatim>\<open>cached_at\<close>, which
  the lookup deletes as corrupt, makes the round of \<^verbatim>\<open>stats\<close> raise \<^verbatim>\<open>KeyError\<close> after
  it has been counted in the total, in the total size and under its category.
\<close>

theorem stats_counterexample:
  "subscript (JObj [(''url'', JStr laps_url), (''endpoint'', JStr ''laps''),
                    (''data'', laps_payload)]) ''cached_at'' = Inl KeyError
   \<and> get sample_lib noon laps_url
        [(laps_key, \<lparr>body = Parsed (JObj [(''url'', JStr laps_url), (''endpoint'', JStr ''laps''),
                                           (''data'', laps_payload)]),
                     st_size = 135\<rparr>)] = (Inr JNull, [])
   \<and> total (fst (stats sample_lib
        [(laps_key, \<lparr>body = Parsed (JObj [(''url'', JStr laps_url), (''endpoint'', JStr ''laps''),
                                           (''data'', laps_payload)]),
                     st_size = 135\<rparr>)])) = 1
   \<and> total_size (fst (stats sample_lib
        [(laps_key, \<lparr>body = Parsed (JObj [(''url'', JStr laps_url), (''endpoint'', JStr ''laps''),
                                           (''data'', laps_payload)]),
                     st_size = 135\<rparr>)])) = 135
   \<and> by_endpoint (fst (stats sample_lib
        [(laps_key, \<lparr>body = Parsed (JObj [(''url'', JStr laps_url), (''endpoint'', JStr ''laps''),
                                           (''data'', laps_payload)]),
                     st_size = 135\<rparr>)])) (JStr ''laps'') = Some 1"
  by (simp add: stats_def stats_step_def stats_init_def json_load_def get_def get_try_def
        laps_key_eq AList.delete_eq)
    (simp add: sample_lib_def laps_key_def)

text \<open>
  Claim C8, amended. \<^verbatim>\<open>stats\<close> scans all entries and leaves the directory as it is.
  Entries that do not load as JSON are skipped: the statistics are those of the
  directory without them. An entry that loads is counted in the total and in the
  total size, also when its round raises later; it is counted under its category
  when the round gets as far as reading it; and its timestamp enters the oldest and
  the newest when the round gets as far as reading it and it can be compared with
  the first timestamp read (naive with naive, aware with aware). The oldest and the
  newest are the least and the greatest of these timestamps, and there is none for a
  directory without any.
\<close>

theorem stats_scan:
  "snd (stats L fs) = fs
   \<and> fst (stats L fs) = fst (stats L (filter (\<lambda>e. parses (snd e)) fs))
   \<and> total (fst (stats L fs)) = length (filter (\<lambda>e. parses (snd e)) fs)
   \<and> total_size (fst (stats L fs))
     = sum_list (map (\<lambda>e. st_size (snd e)) (filter (\<lambda>e. parses (snd e)) fs))
   \<and> by_endpoint (fst (stats L fs)) k
     = (if filter (\<lambda>e. counted_category (snd e) = Some k) fs = [] then None
        else Some (length (filter (\<lambda>e. counted_category (snd e) = Some k) fs)))
   \<and> oldest (fst (stats L fs))
     = (case List.map_filter (\<lambda>e. counted_time L (snd e)) fs of
          [] \<Rightarrow> None
        | t # ts \<Rightarrow>
            Some (stamp (aware t)
                   (Min (set (List.map_filter (\<lambda>e. kin_time (aware t) L (snd e)) fs)))))
   \<and> newest (fst (stats L fs))
     = (case List.map_filter (\<lambda>e. counted_time L (snd e)) fs of
          [] \<Rightarrow> None
        | t # ts \<Rightarrow>
            Some (stamp (aware t)
                   (Max (set (List.map_filter (\<lambda>e. kin_time (aware t) L (snd e)) fs)))))"
proof (intro conjI)
  show "snd (stats L fs) = fs" by (simp add: stats_def)
  show "fst (stats L fs) = fst (stats L (filter (\<lambda>e. parses (snd e)) fs))"
    by (rule stats_skips)
  show "total (fst (stats L fs)) = length (filter (\<lambda>e. parses (snd e)) fs)"
    by (rule stats_fields)
  show "total_size (fst (stats L fs))
     = sum_list (map (\<lambda>e. st_size (snd e)) (filter (\<lambda>e. parses (snd e)) fs))"
    by (rule stats_fields)
  show "by_endpoint (fst (stats L fs)) k
     = (if filter (\<lambda>e. counted_category (snd e) = Some k) fs = [] then None
        else Some (length (filter (\<lambda>e. counted_category (snd e) = Some k) fs)))"
    by (rule stats_fields)
  show "oldest (fst (stats L fs))
     = (case List.map_filter (\<lambda>e. counted_time L (snd e)) fs of
          [] \<Rightarrow> None
        | t # ts \<Rightarrow>
            Some (stamp (aware t)
                   (Min (set (List.map_filter (\<lambda>e. kin_time (aware t) L (snd e)) fs)))))"
    by (rule stats_times)
  show "newest (fst (stats L fs))
     = (case List.map_filter (\<lambda>e. counted_time L (snd e)) fs of
          [] \<Rightarrow> None
        | t # ts \<Rightarrow>
            Some (stamp (aware t)
                   (Max (set (List.map_filter (\<lambda>e. kin_time (aware t) L (snd e)) fs)))))"
    by (rule stats_times)
qed

lemma sample_counted:
  "counted_category \<lparr>body = Parsed (cache_record L T url data), st_size = n\<rparr>
   = Some (JStr (get_endpoint_type url))"
  "counted_category \<lparr>body = Malformed, st_size = n\<rparr> = None"
  "parses \<lparr>body = Parsed v, st_size = n\<rparr>"
  "\<not> parses \<lparr>body = Malformed, st_size = n\<rparr>"
  by (simp_all add: counted_category_def json_load_def cache_record_def parses_def)

lemma sample_times:
  "counted_time sample_lib \<lparr>body = Parsed (cache_record sample_lib noon url data), st_size = n\<rparr>
   = Some (Naive noon)"
  "counted_time sample_lib
     \<lparr>body = Parsed (cache_record sample_lib (noon + 3600000000) url data), st_size = n\<rparr>
   = Some (Naive (noon + 3600000000))"
  "counted_time L \<lparr>body = Malformed, st_size = n\<rparr> = None"
  by (simp_all add: counted_time_def counted_category_def json_load_def cache_record_def
      sample_lib_def noon_def)

theorem stats_scan_witness:
  "snd (stats sample_lib sample_dir) = sample_dir
   \<and> total (fst (stats sample_lib sample_dir)) = 2
   \<and> total_size (fst (stats sample_lib sample_dir)) = 310
   \<and> by_endpoint (fst (stats sample_lib sample_dir)) (JStr ''laps'') = Some 1
   \<and> oldest (fst (stats sample_lib sample_dir)) = Some (Naive noon)
   \<and> newest (fst (stats sample_lib sample_dir)) = Some (Naive (noon + 3600000000))"
proof -
  note scan = stats_scan [of sample_lib sample_dir "JStr ''laps''"]
  note unchanged = scan [THEN conjunct1]
  note fields = scan [THEN conjunct2, THEN conjunct2]
  show ?thesis
    using unchanged fields
    by (simp add: sample_dir_def sample_counted sample_times kin_time_def stamp_def
          List.map_filter_simps laps_category sessions_category)
qed

end
